theory Spec2Isabelle
  imports Main
begin

section \<open>Values of the engine\<close>

text \<open>
  The two tools work on untyped values (\<open>any\<close>) that come out of \<open>JSON.parse\<close>. A value is
  \<open>null\<close>, a boolean, a number, a text, an array or an object; \<open>undefined\<close> is not a member
  of a parsed document and is written \<open>None\<close> in \<open>jsval option\<close>.

  \<^item> A text is a \<open>string\<close>: one \<open>char\<close> per UTF-16 code unit, for the texts whose code
    units are all below 0x100.
  \<^item> A number is an \<open>int\<close>: the integral numbers of magnitude below \<open>2^53\<close>, which the
    engine holds exactly and prints in plain decimal. Fractions and larger numbers are
    not values of the model.
  \<^item> \<open>JObj kvs\<close> is an ordinary object whose prototype is \<open>Object.prototype\<close>; \<open>kvs\<close> are its
    own enumerable properties in the order \<open>Object.entries\<close> lists them, with distinct keys.
  \<^item> \<open>JProto p kvs\<close> is an ordinary object whose prototype is \<open>p\<close> (\<open>JNull\<close> for no
    prototype). \<open>JSON.parse\<close> never makes one; \<open>generateExample\<close> does, when it assigns to
    the key \<open>__proto__\<close>.
\<close>

datatype jsval =
    JNull
  | JBool bool
  | JNum int
  | JStr string
  | JArr "jsval list"
  | JObj "(string \<times> jsval) list"
  | JProto jsval "(string \<times> jsval) list"

text \<open>
  What a call can throw. \<open>InvalidDetails\<close> is the
  \<open>Error('Invalid operation details returned by API')\<close> of the sample-request tool.
  \<open>Unmodelled\<close> marks the one evaluation this development does not follow: converting to text
  an object that has an array on its prototype chain and, before the array, a property
  named \<open>length\<close> or named as one of the array's indices (the built-in \<open>join\<close> then
  reads that property in place of the array's).
\<close>

datatype error = TypeError | InvalidDetails | Unmodelled

definition bindE :: "error + 'a \<Rightarrow> ('a \<Rightarrow> error + 'b) \<Rightarrow> error + 'b" where
  "bindE m f = (case m of Inl e \<Rightarrow> Inl e | Inr x \<Rightarrow> f x)"

subsection \<open>Truthiness, nullishness, property reads\<close>

fun truthy :: "jsval option \<Rightarrow> bool" where
  "truthy None = False"
| "truthy (Some JNull) = False"
| "truthy (Some (JBool b)) = b"
| "truthy (Some (JNum n)) = (n \<noteq> 0)"
| "truthy (Some (JStr s)) = (s \<noteq> [])"
| "truthy (Some _) = True"

text \<open>The left operand of \<open>??\<close> is skipped when it is \<open>undefined\<close> or \<open>null\<close>.\<close>

fun nullish :: "jsval option \<Rightarrow> bool" where
  "nullish None = True"
| "nullish (Some JNull) = True"
| "nullish (Some _) = False"

fun isArray :: "jsval option \<Rightarrow> bool" where
  "isArray (Some (JArr xs)) = True"
| "isArray _ = False"

fun elements :: "jsval option \<Rightarrow> jsval list" where
  "elements (Some (JArr xs)) = xs"
| "elements _ = []"

fun text_or_missing :: "jsval option \<Rightarrow> bool" where
  "text_or_missing None = True"
| "text_or_missing (Some JNull) = True"
| "text_or_missing (Some (JStr s)) = True"
| "text_or_missing (Some _) = False"

fun is_text :: "jsval \<Rightarrow> bool" where
  "is_text (JStr s) = True"
| "is_text _ = False"

fun the_text :: "jsval option \<Rightarrow> string" where
  "the_text (Some (JStr s)) = s"
| "the_text _ = []"

definition has_key :: "(string \<times> jsval) list \<Rightarrow> string \<Rightarrow> bool" where
  "has_key kvs k = (k \<in> set (map fst kvs))"

text \<open>
  \<open>read_prop v k\<close> is \<open>v[k]\<close> for a value that is neither \<open>null\<close> nor \<open>undefined\<close>: an own
  property, else the prototype chain. It is written for the names the two tools read
  (\<open>servers\<close>, \<open>0\<close>, \<open>url\<close>, \<open>path\<close>, \<open>parameters\<close>, \<open>example\<close>, \<open>schema\<close>, \<open>in\<close>, \<open>name\<close>,
  \<open>requestBody\<close>, \<open>content\<close>, \<open>application/json\<close>, \<open>default\<close>, \<open>enum\<close>, \<open>type\<close>, \<open>items\<close>,
  \<open>properties\<close>, \<open>operations\<close>, \<open>summary\<close>, \<open>description\<close>, \<open>tags\<close>): none of them is a
  built-in property of \<open>Object.prototype\<close>, \<open>Array.prototype\<close> or \<open>String.prototype\<close>, and
  of the indices only \<open>0\<close> is read.
\<close>

fun read_prop :: "jsval \<Rightarrow> string \<Rightarrow> jsval option" where
  "read_prop (JObj kvs) k = map_of kvs k"
| "read_prop (JProto p kvs) k =
     (case map_of kvs k of Some v \<Rightarrow> Some v | None \<Rightarrow> read_prop p k)"
| "read_prop (JArr xs) k =
     (if k = ''0'' then (case xs of [] \<Rightarrow> None | x # _ \<Rightarrow> Some x) else None)"
| "read_prop (JStr s) k =
     (if k = ''0'' then (case s of [] \<Rightarrow> None | c # _ \<Rightarrow> Some (JStr [c])) else None)"
| "read_prop _ k = None"

text \<open>\<open>v.k\<close>: reading a property of \<open>null\<close> or \<open>undefined\<close> throws a \<open>TypeError\<close>.\<close>

fun get :: "jsval option \<Rightarrow> string \<Rightarrow> error + jsval option" where
  "get None k = Inl TypeError"
| "get (Some JNull) k = Inl TypeError"
| "get (Some v) k = Inr (read_prop v k)"

text \<open>\<open>v?.k\<close>: \<open>undefined\<close> when \<open>v\<close> is \<open>null\<close> or \<open>undefined\<close>.\<close>

definition get_opt :: "jsval option \<Rightarrow> string \<Rightarrow> jsval option" where
  "get_opt v k = (if nullish v then None else read_prop (the v) k)"

subsection \<open>Texts\<close>

definition digit_char :: "nat \<Rightarrow> char" where
  "digit_char n = ''0123456789ABCDEF'' ! n"

fun digits :: "nat \<Rightarrow> string" where
  "digits n = (if n < 10 then [digit_char n] else digits (n div 10) @ [digit_char (n mod 10)])"

declare digits.simps [simp del]

definition number_text :: "int \<Rightarrow> string" where
  "number_text i = (if i < 0 then CHR ''-'' # digits (nat (- i)) else digits (nat i))"

text \<open>
  \<open>String(v)\<close> and the interpolation \<open>`${v}`\<close>. An object is converted through its
  \<open>toString\<close> property, found on the object or on its prototype chain. The only callable
  ones are the built-in \<open>Object.prototype.toString\<close> and \<open>Array.prototype.toString\<close>; a
  \<open>toString\<close> property that came from the document is data, not a function, and then
  \<open>valueOf\<close> (data again, or the built-in one, which returns the object itself) gives no
  primitive either: the conversion throws a \<open>TypeError\<close>.

  \<open>chain_text own p\<close> walks the prototype chain \<open>p\<close> of an ordinary object; \<open>own\<close> are the
  properties of the object and of the prototypes passed so far. A chain that ends in
  \<open>Object.prototype\<close> gives \<open>[object Object]\<close>; a chain without one has no \<open>toString\<close>.
  A chain that reaches an array finds \<open>Array.prototype.toString\<close>, which calls \<open>join\<close>:
  the built-in one reads \<open>length\<close> and the indices through the chain, so it joins the
  elements of the array when no property passed before shadows them; a \<open>join\<close> property
  that is data makes it fall back to \<open>Object.prototype.toString\<close>.
\<close>

fun toText :: "jsval \<Rightarrow> error + string"
  and joinText :: "jsval list \<Rightarrow> error + string"
  and chain_text :: "(string \<times> jsval) list \<Rightarrow> jsval \<Rightarrow> error + string" where
  "toText JNull = Inr ''null''"
| "toText (JBool b) = Inr (if b then ''true'' else ''false'')"
| "toText (JNum n) = Inr (number_text n)"
| "toText (JStr s) = Inr s"
| "toText (JArr xs) = joinText xs"
| "toText (JObj kvs) =
     (if has_key kvs ''toString'' then Inl TypeError else Inr ''[object Object]'')"
| "toText (JProto p kvs) =
     (if has_key kvs ''toString'' then Inl TypeError else chain_text kvs p)"
| "joinText [] = Inr []"
| "joinText [x] = (if x = JNull then Inr [] else toText x)"
| "joinText (x # y # r) =
     bindE (if x = JNull then Inr [] else toText x) (\<lambda>a.
     bindE (joinText (y # r)) (\<lambda>b. Inr (a @ '','' @ b)))"
| "chain_text own JNull = Inl TypeError"
| "chain_text own (JObj kvs) =
     (if has_key kvs ''toString'' then Inl TypeError else Inr ''[object Object]'')"
| "chain_text own (JProto p kvs) =
     (if has_key kvs ''toString'' then Inl TypeError else chain_text (own @ kvs) p)"
| "chain_text own (JArr xs) =
     (if has_key own ''join'' then Inr ''[object Object]''
      else if has_key own ''length'' \<or> list_ex (\<lambda>i. has_key own (digits i)) [0..<length xs]
      then Inl Unmodelled
      else joinText xs)"
| "chain_text own v = Inl Unmodelled"

fun ToString :: "jsval option \<Rightarrow> error + string" where
  "ToString None = Inr ''undefined''"
| "ToString (Some v) = toText v"

text \<open>
  The case mappings of the engine on the code units below 0x100: the ASCII letters and
  the letters of the upper half (0xC0 to 0xDE and 0xE0 to 0xFE, without the two
  arithmetic signs 0xD7 and 0xF7); the upper-case form of 0xDF is \<open>SS\<close>. The upper-case
  forms of 0xB5 and 0xFF lie beyond 0xFF: \<open>toUpperCase\<close> is the engine's on texts without
  these two code units.
\<close>

definition lower_char :: "char \<Rightarrow> char" where
  "lower_char c =
     (let n = (of_char c :: nat) in
      if (65 \<le> n \<and> n \<le> 90) \<or> (192 \<le> n \<and> n \<le> 222 \<and> n \<noteq> 215)
      then char_of (n + 32) else c)"

definition upper_char :: "char \<Rightarrow> string" where
  "upper_char c =
     (let n = (of_char c :: nat) in
      if (97 \<le> n \<and> n \<le> 122) \<or> (224 \<le> n \<and> n \<le> 254 \<and> n \<noteq> 247)
      then [char_of (n - 32)]
      else if n = 223 then ''SS''
      else [c])"

definition toLowerCase :: "string \<Rightarrow> string" where
  "toLowerCase s = map lower_char s"

definition toUpperCase :: "string \<Rightarrow> string" where
  "toUpperCase s = concat (map upper_char s)"

fun starts_with :: "string \<Rightarrow> string \<Rightarrow> bool" where
  "starts_with s [] = True"
| "starts_with [] (p # ps) = False"
| "starts_with (c # cs) (p # ps) = (c = p \<and> starts_with cs ps)"

text \<open>\<open>s.includes(q)\<close>: \<open>q\<close> occurs in \<open>s\<close> as a contiguous run.\<close>

fun includes_str :: "string \<Rightarrow> string \<Rightarrow> bool" where
  "includes_str [] q = (q = [])"
| "includes_str (c # cs) q = (starts_with (c # cs) q \<or> includes_str cs q)"

text \<open>
  \<open>s.replace(pat, rep)\<close> with a text pattern: the first occurrence of \<open>pat\<close> is replaced,
  and \<open>s\<close> is returned as it is when there is none. The engine expands \<open>$\<close> patterns in
  \<open>rep\<close>; the only replacement the tool passes is an \<open>encodeURIComponent\<close> result, in which
  no \<open>$\<close> occurs (\<open>encodeURIComponent_no_dollar\<close> below).
\<close>

fun replace_first :: "string \<Rightarrow> string \<Rightarrow> string \<Rightarrow> string" where
  "replace_first pat rep [] = (if pat = [] then rep else [])"
| "replace_first pat rep (c # cs) =
     (if starts_with (c # cs) pat then rep @ drop (length pat) (c # cs)
      else c # replace_first pat rep cs)"

definition unreserved :: "char \<Rightarrow> bool" where
  "unreserved c = (c \<in> set
     ''ABCDEFGHIJKLMNOPQRSTUVWXYZabcdefghijklmnopqrstuvwxyz0123456789-_.!~*'' \<or> c = CHR 0x27
     \<or> c = CHR ''('' \<or> c = CHR '')'')"

definition percent :: "nat \<Rightarrow> string" where
  "percent n = [CHR ''%'', digit_char (n div 16), digit_char (n mod 16)]"

text \<open>One code unit, as the bytes of its UTF-8 form.\<close>

definition encode_unit :: "char \<Rightarrow> string" where
  "encode_unit c =
     (let n = (of_char c :: nat) in
      if unreserved c then [c]
      else if n < 128 then percent n
      else percent (192 + n div 64) @ percent (128 + n mod 64))"

definition encodeURIComponent :: "string \<Rightarrow> string" where
  "encodeURIComponent s = concat (map encode_unit s)"

section \<open>The example synthesizer\<close>

text \<open>
  \<open>Object.entries(v)\<close> for a truthy \<open>v\<close>: the own enumerable properties; the indices of an
  array or of a text; nothing for a number or a boolean.
\<close>

fun Object_entries :: "jsval \<Rightarrow> (string \<times> jsval) list" where
  "Object_entries (JObj kvs) = kvs"
| "Object_entries (JProto p kvs) = kvs"
| "Object_entries (JArr xs) = zip (map digits [0..<length xs]) xs"
| "Object_entries (JStr s) = zip (map digits [0..<length s]) (map (\<lambda>c. JStr [c]) s)"
| "Object_entries _ = []"

fun upsert :: "(string \<times> jsval) list \<Rightarrow> string \<Rightarrow> jsval \<Rightarrow> (string \<times> jsval) list" where
  "upsert [] k v = [(k, v)]"
| "upsert ((k', v') # kvs) k v =
     (if k' = k then (k, v) # kvs else (k', v') # upsert kvs k v)"

text \<open>
  Whether an assignment to \<open>__proto__\<close> through the prototype chain starting at the given
  value stops before it reaches the accessor of \<open>Object.prototype\<close>: at a data property of
  that name, or at the end of a chain that has no \<open>Object.prototype\<close>.
\<close>

fun proto_shadowed :: "jsval \<Rightarrow> bool" where
  "proto_shadowed JNull = True"
| "proto_shadowed (JObj kvs) = has_key kvs ''__proto__''"
| "proto_shadowed (JProto p kvs) = (has_key kvs ''__proto__'' \<or> proto_shadowed p)"
| "proto_shadowed _ = False"

fun is_object_or_null :: "jsval \<Rightarrow> bool" where
  "is_object_or_null JNull = True"
| "is_object_or_null (JArr xs) = True"
| "is_object_or_null (JObj kvs) = True"
| "is_object_or_null (JProto p kvs) = True"
| "is_object_or_null _ = False"

text \<open>
  \<open>obj[key] = v\<close> on an ordinary object. A key the object has not got yet becomes its last
  property (the keys arrive in the order of \<open>Object.entries\<close>, which is the order the
  engine enumerates them in). The key \<open>__proto__\<close> is the accessor inherited from
  \<open>Object.prototype\<close>: it sets the prototype when \<open>v\<close> is an object or \<open>null\<close>, does
  nothing for any other \<open>v\<close>, and creates no own property.
\<close>

fun assign :: "jsval \<Rightarrow> string \<Rightarrow> jsval \<Rightarrow> jsval" where
  "assign (JObj kvs) k v =
     (if k = ''__proto__'' \<and> \<not> has_key kvs k
      then (if is_object_or_null v then JProto v kvs else JObj kvs)
      else JObj (upsert kvs k v))"
| "assign (JProto p kvs) k v =
     (if k = ''__proto__'' \<and> \<not> has_key kvs k \<and> \<not> proto_shadowed p
      then (if is_object_or_null v then JProto v kvs else JProto p kvs)
      else JProto p (upsert kvs k v))"
| "assign obj k v = obj"

text \<open>The loop \<open>for (const [key, value] of entries) obj[key] = f(value)\<close>.\<close>

fun assign_each ::
  "(jsval \<Rightarrow> error + jsval) \<Rightarrow> (string \<times> jsval) list \<Rightarrow> jsval \<Rightarrow> error + jsval" where
  "assign_each f [] obj = Inr obj"
| "assign_each f ((key, v) # es) obj =
     bindE (f v) (\<lambda>x. assign_each f es (assign obj key x))"

lemma bindE_cong [fundef_cong]:
  "m = m' \<Longrightarrow> (\<And>x. m' = Inr x \<Longrightarrow> f x = g x) \<Longrightarrow> bindE m f = bindE m' g"
  by (auto simp: bindE_def split: sum.splits)

lemma assign_each_cong [fundef_cong]:
  "es = es' \<Longrightarrow> obj = obj' \<Longrightarrow> (\<And>k v. (k, v) \<in> set es' \<Longrightarrow> f v = g v)
   \<Longrightarrow> assign_each f es obj = assign_each g es' obj'"
proof (induction es' arbitrary: es obj obj')
  case Nil
  then show ?case by simp
next
  case (Cons e es')
  obtain k v where e: "e = (k, v)" by (cases e)
  have fv: "f v = g v" using Cons.prems(3) [of k v] e by simp
  have rest: "assign_each f es' ob = assign_each g es' ob" for ob
  proof (rule Cons.IH [OF refl refl])
    fix k' v' assume "(k', v') \<in> set es'"
    then show "f v' = g v'" using Cons.prems(3) [of k' v'] by simp
  qed
  show ?case using Cons.prems(1,2) e fv rest by simp
qed

lemma size_map_of:
  "map_of kvs k = Some v \<Longrightarrow> size v < Suc (size_list (size_prod (\<lambda>_. 0) size) kvs)"
  by (induction kvs) (auto split: if_splits)

lemma size_read_prop:
  "read_prop s k = Some v \<Longrightarrow> k \<noteq> ''0'' \<Longrightarrow> size v < size s"
proof (induction s k rule: read_prop.induct)
  case (1 kvs k)
  then show ?case using size_map_of [of kvs k v] by simp
next
  case (2 p kvs k)
  show ?case
  proof (cases "map_of kvs k")
    case None
    then show ?thesis using 2 by simp
  next
    case (Some w)
    then show ?thesis using 2 size_map_of [of kvs k v] by simp
  qed
qed simp_all

lemma size_get:
  "get s k = Inr (Some v) \<Longrightarrow> k \<noteq> ''0'' \<Longrightarrow> s = Some w \<Longrightarrow> size v < size w"
proof -
  assume g: "get s k = Inr (Some v)" and k: "k \<noteq> ''0''" and s: "s = Some w"
  have "read_prop w k = Some v" using g s by (cases w) simp_all
  then show ?thesis using k by (rule size_read_prop)
qed

lemma size_in_set:
  "(k, v) \<in> set kvs \<Longrightarrow> size v < Suc (size_list (size_prod (\<lambda>_. 0) size) kvs)"
  by (induction kvs) auto

lemma size_in_zip:
  "(k, v) \<in> set (zip ks xs) \<Longrightarrow> size v < Suc (size_list size xs)"
proof -
  assume "(k, v) \<in> set (zip ks xs)"
  then have "v \<in> set xs" by (rule set_zip_rightD)
  then show ?thesis by (induction xs) auto
qed

lemma size_Object_entries:
  "(k, v) \<in> set (Object_entries p) \<Longrightarrow> size v \<le> size p"
proof (cases p)
  case (JStr s)
  assume "(k, v) \<in> set (Object_entries p)"
  then have "v \<in> set (map (\<lambda>c. JStr [c]) s)" using JStr by (auto dest: set_zip_rightD)
  then show ?thesis using JStr by auto
next
  case (JArr xs)
  assume "(k, v) \<in> set (Object_entries p)"
  then show ?thesis using JArr size_in_zip [of k v "map digits [0..<length xs]" xs] by simp
next
  case (JObj kvs)
  assume "(k, v) \<in> set (Object_entries p)"
  then show ?thesis using JObj size_in_set [of k v kvs] by simp
next
  case (JProto q kvs)
  assume "(k, v) \<in> set (Object_entries p)"
  then show ?thesis using JProto size_in_set [of k v kvs] by simp
qed simp_all

text \<open>
  \<open>generateExample\<close> (generateApiSampleRequest.ts, lines 59 to 88). Every property read is
  written with \<open>get\<close>, which throws on \<open>null\<close> and \<open>undefined\<close> as the engine does.
\<close>

function generateExample :: "jsval option \<Rightarrow> error + jsval" where
  "generateExample schema =
    (if \<not> truthy schema then Inr (JStr ''example'')
     else bindE (get schema ''example'') (\<lambda>example.
       case example of Some v \<Rightarrow> Inr v | None \<Rightarrow>
       bindE (get schema ''default'') (\<lambda>dflt.
       case dflt of Some v \<Rightarrow> Inr v | None \<Rightarrow>
       bindE (get schema ''enum'') (\<lambda>enm.
       if isArray enm \<and> length (elements enm) > 0 then Inr (hd (elements enm))
       else bindE (get schema ''type'') (\<lambda>ty.
         if ty = Some (JStr ''string'') then Inr (JStr ''string'')
         else if ty = Some (JStr ''integer'') \<or> ty = Some (JStr ''number'') then Inr (JNum 0)
         else if ty = Some (JStr ''boolean'') then Inr (JBool True)
         else if ty = Some (JStr ''array'') then
           bindE (get schema ''items'') (\<lambda>items.
           bindE (generateExample items) (\<lambda>x. Inr (JArr [x])))
         else if ty = Some (JStr ''object'') then
           bindE (get schema ''properties'') (\<lambda>properties.
           if truthy properties
           then assign_each (\<lambda>v. generateExample (Some v))
                  (Object_entries (the properties)) (JObj [])
           else Inr (JObj []))
         else Inr (JStr ''example''))))))"
  by pat_completeness auto

text \<open>
  The recursion descends into \<open>items\<close> and into the entries of \<open>properties\<close> only, and
  both are strictly smaller than the node they are read from.
\<close>

lemma generateExample_descends: "All generateExample_dom"
proof (rule "generateExample.termination"
    [of "measure (\<lambda>s. case s of None \<Rightarrow> 0 | Some v \<Rightarrow> Suc (size v))"])
  show "wf (measure (\<lambda>s. case s of None \<Rightarrow> 0 | Some v \<Rightarrow> Suc (size v)))" by simp
next
  fix schema :: "jsval option" and example dflt enm ty items
  assume t: "\<not> \<not> truthy schema" and g: "get schema ''items'' = Inr items"
  obtain w where w: "schema = Some w" using t by (cases schema) auto
  show "(items, schema) \<in> measure (\<lambda>s. case s of None \<Rightarrow> 0 | Some v \<Rightarrow> Suc (size v))"
  proof (cases items)
    case None
    then show ?thesis using w by simp
  next
    case (Some v)
    then show ?thesis using size_get [of schema "''items''" v w] g w by simp
  qed
next
  fix schema :: "jsval option" and example dflt enm ty properties k v
  assume t: "\<not> \<not> truthy schema" and g: "get schema ''properties'' = Inr properties"
    and tp: "truthy properties" and m: "(k, v) \<in> set (Object_entries (the properties))"
  obtain w where w: "schema = Some w" using t by (cases schema) auto
  obtain p where p: "properties = Some p" using tp by (cases properties) auto
  have "size p < size w" using size_get [of schema "''properties''" p w] g w p by simp
  moreover have "size v \<le> size p" using size_Object_entries [of k v p] m p by simp
  ultimately show "(Some v, schema) \<in> measure (\<lambda>s. case s of None \<Rightarrow> 0 | Some v \<Rightarrow> Suc (size v))"
    using w by simp
qed

termination generateExample
  by (rule generateExample_descends)

declare generateExample.simps [simp del]


section \<open>Serialization\<close>

definition hex_lower :: "nat \<Rightarrow> char" where
  "hex_lower n = ''0123456789abcdef'' ! n"

text \<open>One code unit inside a JSON text literal (\<open>QuoteJSONString\<close>).\<close>

definition json_escape :: "char \<Rightarrow> string" where
  "json_escape c =
     (let n = (of_char c :: nat) in
      if n = 8 then [CHR 0x5C, CHR ''b'']
      else if n = 9 then [CHR 0x5C, CHR ''t'']
      else if n = 10 then [CHR 0x5C, CHR ''n'']
      else if n = 12 then [CHR 0x5C, CHR ''f'']
      else if n = 13 then [CHR 0x5C, CHR ''r'']
      else if n = 34 then [CHR 0x5C, CHR 0x22]
      else if n = 92 then [CHR 0x5C, CHR 0x5C]
      else if n < 32 then [CHR 0x5C, CHR ''u'', CHR ''0'', CHR ''0'', hex_lower (n div 16), hex_lower (n mod 16)]
      else [c])"

definition json_quote :: "string \<Rightarrow> string" where
  "json_quote s = CHR 0x22 # concat (map json_escape s) @ [CHR 0x22]"

fun join :: "string \<Rightarrow> string list \<Rightarrow> string" where
  "join sep [] = []"
| "join sep [x] = x"
| "join sep (x # y # r) = x @ sep @ join sep (y # r)"

text \<open>
  The brackets around the serialized members of an array or an object: \<open>gap\<close> is the
  indentation unit (empty for the compact form), \<open>ind\<close> the indentation of the enclosing
  line.
\<close>

definition wrap :: "string \<Rightarrow> string \<Rightarrow> string \<Rightarrow> string \<Rightarrow> string list \<Rightarrow> string" where
  "wrap opening closing gap ind partial =
     (if partial = [] then opening @ closing
      else if gap = [] then opening @ join '','' partial @ closing
      else opening @ [CHR 0x0A] @ ind @ gap
           @ join ('','' @ [CHR 0x0A] @ ind @ gap) partial
           @ [CHR 0x0A] @ ind @ closing)"

text \<open>
  \<open>JSON.stringify(v, null, gap)\<close> on the values above: none of them is \<open>undefined\<close> or a
  function, and a \<open>toJSON\<close> property that came from a document is not callable. Only own
  properties are written.
\<close>

fun stringify :: "string \<Rightarrow> string \<Rightarrow> jsval \<Rightarrow> string"
  and stringify_items :: "string \<Rightarrow> string \<Rightarrow> jsval list \<Rightarrow> string list"
  and stringify_members :: "string \<Rightarrow> string \<Rightarrow> (string \<times> jsval) list \<Rightarrow> string list" where
  "stringify gap ind JNull = ''null''"
| "stringify gap ind (JBool b) = (if b then ''true'' else ''false'')"
| "stringify gap ind (JNum n) = number_text n"
| "stringify gap ind (JStr s) = json_quote s"
| "stringify gap ind (JArr xs) = wrap ''['' '']'' gap ind (stringify_items gap (ind @ gap) xs)"
| "stringify gap ind (JObj kvs) = wrap ''{'' ''}'' gap ind (stringify_members gap (ind @ gap) kvs)"
| "stringify gap ind (JProto p kvs) =
     wrap ''{'' ''}'' gap ind (stringify_members gap (ind @ gap) kvs)"
| "stringify_items gap ind [] = []"
| "stringify_items gap ind (x # xs) = stringify gap ind x # stringify_items gap ind xs"
| "stringify_members gap ind [] = []"
| "stringify_members gap ind ((k, v) # kvs) =
     (json_quote k @ '':'' @ (if gap = [] then [] else '' '') @ stringify gap ind v)
     # stringify_members gap ind kvs"

definition JSON_stringify :: "jsval \<Rightarrow> string" where
  "JSON_stringify v = stringify [] [] v"

definition JSON_stringify_2 :: "jsval \<Rightarrow> string" where
  "JSON_stringify_2 v = stringify ''  '' [] v"

section \<open>The request assembler\<close>

text \<open>The mutable locals \<open>urlPath\<close>, \<open>queryParams\<close> and \<open>headers\<close> of \<open>execute\<close>.\<close>

record assembly =
  urlPath :: jsval
  queryParams :: "string list"
  headers :: "string list"

text \<open>\<open>x.example ?? generateExample(x.schema)\<close> (lines 122 and 143).\<close>

definition example_or_generated :: "jsval option \<Rightarrow> error + jsval" where
  "example_or_generated x =
     bindE (get x ''example'') (\<lambda>example.
     if nullish example then bindE (get x ''schema'') generateExample
     else Inr (the example))"

text \<open>
  \<open>target.replace(pat, rep)\<close>: only a text has a \<open>replace\<close> method; on any other value the
  call throws a \<open>TypeError\<close>.
\<close>

fun call_replace :: "jsval \<Rightarrow> string \<Rightarrow> string \<Rightarrow> error + string" where
  "call_replace (JStr t) pat rep = Inr (replace_first pat rep t)"
| "call_replace _ pat rep = Inl TypeError"

definition quoted :: "string \<Rightarrow> string" where
  "quoted s = CHR 0x27 # s @ [CHR 0x27]"

text \<open>One iteration of the loop over \<open>details.parameters\<close> (lines 121 to 136).\<close>

definition param_step :: "assembly \<Rightarrow> jsval \<Rightarrow> error + assembly" where
  "param_step st param =
     bindE (example_or_generated (Some param)) (\<lambda>v.
     bindE (get (Some param) ''in'') (\<lambda>pin.
     if pin = Some (JStr ''path'') then
       bindE (get (Some param) ''name'') (\<lambda>name.
       bindE (ToString name) (\<lambda>n.
       bindE (ToString (Some v)) (\<lambda>s.
       bindE (call_replace (urlPath st) (''{'' @ n @ ''}'') (encodeURIComponent s)) (\<lambda>u.
       Inr (st\<lparr>urlPath := JStr u\<rparr>)))))
     else if pin = Some (JStr ''query'') then
       bindE (get (Some param) ''name'') (\<lambda>name.
       bindE (ToString name) (\<lambda>n.
       bindE (ToString (Some v)) (\<lambda>s.
       Inr (st\<lparr>queryParams := queryParams st
              @ [encodeURIComponent n @ ''='' @ encodeURIComponent s]\<rparr>))))
     else if pin = Some (JStr ''header'') then
       bindE (get (Some param) ''name'') (\<lambda>name.
       bindE (ToString name) (\<lambda>n.
       bindE (ToString (Some v)) (\<lambda>s.
       Inr (st\<lparr>headers := headers st @ [n @ '': '' @ s]\<rparr>))))
     else Inr st))"

fun run_params :: "assembly \<Rightarrow> jsval list \<Rightarrow> error + assembly" where
  "run_params st [] = Inr st"
| "run_params st (param # ps) = bindE (param_step st param) (\<lambda>st'. run_params st' ps)"

definition fallback_server :: string where
  "fallback_server = ''https://api.mastercard.com''"

text \<open>
  \<open>execute\<close> of generateApiSampleRequest.ts from line 113 on: \<open>method\<close> is already in upper
  case and \<open>details\<close> is the parsed document.
\<close>

definition assemble :: "string \<Rightarrow> string \<Rightarrow> jsval \<Rightarrow> error + string" where
  "assemble method path details =
     bindE (get (Some details) ''servers'') (\<lambda>servers.
     let url0 = get_opt (get_opt servers ''0'') ''url'';
         serverUrl = (if nullish url0 then Some (JStr fallback_server) else url0) in
     bindE (get (Some details) ''path'') (\<lambda>dpath.
     let start = \<lparr>urlPath = (if truthy dpath then the dpath else JStr path),
                  queryParams = [], headers = []\<rparr> in
     bindE (get (Some details) ''parameters'') (\<lambda>parameters.
     bindE (if isArray parameters then run_params start (elements parameters) else Inr start)
       (\<lambda>st.
     bindE (get (Some details) ''requestBody'') (\<lambda>requestBody.
     let jsonContent = get_opt (get_opt requestBody ''content'') ''application/json'' in
     bindE (if truthy jsonContent
            then bindE (example_or_generated jsonContent) (\<lambda>b.
                 Inr (Some b, headers st @ [''Content-Type: application/json'']))
            else Inr (None, headers st)) (\<lambda>bh.
     bindE (ToString serverUrl) (\<lambda>base.
     bindE (ToString (Some (urlPath st))) (\<lambda>p.
     let url = base @ p
           @ (if length (queryParams st) > 0 then ''?'' @ join ''&'' (queryParams st) else [])
     in Inr (''curl -X '' @ method @ '' '' @ quoted url
             @ concat (map (\<lambda>header. '' -H '' @ quoted header) (snd bh))
             @ (case fst bh of None \<Rightarrow> []
                | Some body \<Rightarrow> '' -d '' @ quoted (JSON_stringify body)))))))))))"

text \<open>
  \<open>execute\<close> of generateApiSampleRequest.ts. The text the lookup service returned is an
  input; \<open>JSON.parse\<close> is a parameter (\<open>None\<close> when it throws a \<open>SyntaxError\<close>).
\<close>

definition execute_generateApiSampleRequest ::
  "(string \<Rightarrow> jsval option) \<Rightarrow> string \<Rightarrow> string \<Rightarrow> string \<Rightarrow> error + string" where
  "execute_generateApiSampleRequest JSON_parse method path detailsText =
     (case JSON_parse detailsText of
        None \<Rightarrow> Inl InvalidDetails
      | Some details \<Rightarrow> assemble (toUpperCase method) path details)"

section \<open>The operation search\<close>

text \<open>\<open>v.toLowerCase()\<close>: only a text has the method.\<close>

fun call_toLowerCase :: "jsval \<Rightarrow> error + string" where
  "call_toLowerCase (JStr s) = Inr (toLowerCase s)"
| "call_toLowerCase _ = Inl TypeError"

fun mapE :: "('a \<Rightarrow> error + 'b) \<Rightarrow> 'a list \<Rightarrow> error + 'b list" where
  "mapE f [] = Inr []"
| "mapE f (x # xs) = bindE (f x) (\<lambda>y. bindE (mapE f xs) (\<lambda>ys. Inr (y # ys)))"

fun filterE :: "('a \<Rightarrow> error + bool) \<Rightarrow> 'a list \<Rightarrow> error + 'a list" where
  "filterE f [] = Inr []"
| "filterE f (x # xs) =
     bindE (f x) (\<lambda>keep. bindE (filterE f xs) (\<lambda>ys. Inr (if keep then x # ys else ys)))"

text \<open>The predicate passed to \<open>operations.filter\<close> (lines 96 to 114).\<close>

definition op_matches :: "string \<Rightarrow> string option \<Rightarrow> jsval \<Rightarrow> error + bool" where
  "op_matches query tag op =
     bindE (get (Some op) ''summary'') (\<lambda>su.
     bindE (call_toLowerCase (if nullish su then JStr [] else the su)) (\<lambda>summary.
     bindE (get (Some op) ''description'') (\<lambda>de.
     bindE (call_toLowerCase (if nullish de then JStr [] else the de)) (\<lambda>description.
     bindE (get (Some op) ''tags'') (\<lambda>tg.
     bindE (if isArray tg then mapE call_toLowerCase (elements tg) else Inr []) (\<lambda>tags.
     let matchesQuery = (includes_str summary query \<or> includes_str description query
                         \<or> list_ex (\<lambda>t. includes_str t query) tags);
         matchesTag = (case tag of
                         None \<Rightarrow> True
                       | Some t \<Rightarrow> if t \<noteq> [] then t \<in> set tags else True)
     in Inr (matchesQuery \<and> matchesTag)))))))"

text \<open>\<open>execute\<close> of searchApiOperations.ts from line 86 on, for a parsed payload.\<close>

definition search_parsed :: "string \<Rightarrow> string option \<Rightarrow> jsval \<Rightarrow> error + string" where
  "search_parsed query tag parsed =
     bindE (get (Some parsed) ''operations'') (\<lambda>wrapped.
     let operations = (if isArray wrapped then elements wrapped
                       else if isArray (Some parsed) then elements (Some parsed)
                       else []) in
     bindE (filterE (op_matches (toLowerCase query) (map_option toLowerCase tag)) operations)
       (\<lambda>filtered. Inr (JSON_stringify_2 (JArr filtered))))"

definition execute_searchApiOperations ::
  "(string \<Rightarrow> jsval option) \<Rightarrow> string \<Rightarrow> string option \<Rightarrow> string \<Rightarrow> error + string" where
  "execute_searchApiOperations JSON_parse query tag response =
     (case JSON_parse response of
        None \<Rightarrow> Inr response
      | Some parsed \<Rightarrow> search_parsed query tag parsed)"


section \<open>The request format in the words of the specification\<close>

text \<open>
  The specification describes the assembled request by what it contains, not by the loop
  that builds it. The definitions of this section follow its words; the theorems below
  compare them with \<open>assemble\<close>.

  \<open>text_of v\<close> is the string form of \<open>v\<close> (empty where the conversion throws, in which
  case the assembler throws as well); \<open>resolved\<close> is the resolved value of a parameter or
  of a body content.
\<close>

definition text_of :: "jsval option \<Rightarrow> string" where
  "text_of v = (case ToString v of Inr s \<Rightarrow> s | Inl e \<Rightarrow> [])"

definition resolved :: "jsval \<Rightarrow> jsval option" where
  "resolved holder =
     (case example_or_generated (Some holder) of Inr v \<Rightarrow> Some v | Inl e \<Rightarrow> None)"

definition located :: "string \<Rightarrow> jsval \<Rightarrow> bool" where
  "located place param = (read_prop param ''in'' = Some (JStr place))"

definition param_name :: "jsval \<Rightarrow> string" where
  "param_name param = text_of (read_prop param ''name'')"

definition param_value :: "jsval \<Rightarrow> string" where
  "param_value param = text_of (resolved param)"

definition header_lines :: "jsval list \<Rightarrow> string list" where
  "header_lines ps =
     map (\<lambda>p. param_name p @ '': '' @ param_value p) (filter (located ''header'') ps)"

definition query_items :: "jsval list \<Rightarrow> string list" where
  "query_items ps =
     map (\<lambda>p. encodeURIComponent (param_name p) @ ''='' @ encodeURIComponent (param_value p))
       (filter (located ''query'') ps)"

definition substituted :: "string \<Rightarrow> jsval list \<Rightarrow> string" where
  "substituted template ps =
     foldl (\<lambda>t p. replace_first (''{'' @ param_name p @ ''}'')
                    (encodeURIComponent (param_value p)) t)
       template (filter (located ''path'') ps)"

definition sample_command :: "string \<Rightarrow> string \<Rightarrow> jsval \<Rightarrow> string" where
  "sample_command method path details =
     (let ps = elements (read_prop details ''parameters'');
          server = get_opt (get_opt (read_prop details ''servers'') ''0'') ''url'';
          base = (if nullish server then fallback_server else text_of server);
          template = (if truthy (read_prop details ''path'')
                      then text_of (read_prop details ''path'') else path);
          content = get_opt (get_opt (read_prop details ''requestBody'') ''content'')
                      ''application/json'';
          url = base @ substituted template ps
                @ (if query_items ps = [] then [] else ''?'' @ join ''&'' (query_items ps));
          hs = header_lines ps
               @ (if truthy content then [''Content-Type: application/json''] else [])
      in ''curl -X '' @ method @ '' '' @ quoted url
         @ concat (map (\<lambda>h. '' -H '' @ quoted h) hs)
         @ (if truthy content
            then '' -d '' @ quoted (JSON_stringify (the (resolved (the content))))
            else []))"

text \<open>
  The command for a given URL template: \<open>sample_command\<close> with the template as an
  argument, so that a statement can name the template the assembler substitutes into.
\<close>

definition command_from_template :: "string \<Rightarrow> jsval \<Rightarrow> string \<Rightarrow> string" where
  "command_from_template method details template =
     (let ps = elements (read_prop details ''parameters'');
          server = get_opt (get_opt (read_prop details ''servers'') ''0'') ''url'';
          base = (if nullish server then fallback_server else text_of server);
          content = get_opt (get_opt (read_prop details ''requestBody'') ''content'')
                      ''application/json'';
          url = base @ substituted template ps
                @ (if query_items ps = [] then [] else ''?'' @ join ''&'' (query_items ps));
          hs = header_lines ps
               @ (if truthy content then [''Content-Type: application/json''] else [])
      in ''curl -X '' @ method @ '' '' @ quoted url
         @ concat (map (\<lambda>h. '' -H '' @ quoted h) hs)
         @ (if truthy content
            then '' -d '' @ quoted (JSON_stringify (the (resolved (the content))))
            else []))"

text \<open>
  A document on which the assembler returns: it is not \<open>null\<close>; its \<open>path\<close>, when truthy,
  is a text; the server \<open>url\<close> has a string form; and every parameter is not \<open>null\<close> and,
  when its \<open>in\<close> is \<open>path\<close>, \<open>query\<close> or \<open>header\<close>, its name and its resolved value have
  string forms.
\<close>

definition convertible :: "jsval option \<Rightarrow> bool" where
  "convertible v = (case ToString v of Inr s \<Rightarrow> True | Inl e \<Rightarrow> False)"

definition parameter_ok :: "jsval \<Rightarrow> bool" where
  "parameter_ok param =
     (param \<noteq> JNull
      \<and> (if located ''path'' param \<or> located ''query'' param \<or> located ''header'' param
         then convertible (read_prop param ''name'') \<and> convertible (resolved param)
         else True))"

definition request_document :: "jsval \<Rightarrow> bool" where
  "request_document details =
     (details \<noteq> JNull
      \<and> (if truthy (read_prop details ''path'') then is_text (the (read_prop details ''path''))
         else True)
      \<and> convertible (get_opt (get_opt (read_prop details ''servers'') ''0'') ''url'')
      \<and> list_all parameter_ok (elements (read_prop details ''parameters'')))"

section \<open>The search result in the words of the specification\<close>

text \<open>
  The declared shape of an operation (\<open>ApiOperation\<close>): not \<open>null\<close>; \<open>summary\<close> and
  \<open>description\<close> missing, \<open>null\<close> or a text; \<open>tags\<close>, when it is a sequence, a sequence
  of texts. A missing field counts as the empty text, a \<open>tags\<close> field that is missing or
  not a sequence as the empty sequence. \<open>matches_search\<close> is the filter of the amended
  claim C8: its arguments are the query and the filter tag in lower case.
\<close>

definition api_operation :: "jsval \<Rightarrow> bool" where
  "api_operation op =
     (op \<noteq> JNull
      \<and> text_or_missing (read_prop op ''summary'')
      \<and> text_or_missing (read_prop op ''description'')
      \<and> list_all is_text (elements (read_prop op ''tags'')))"

definition tag_texts :: "jsval \<Rightarrow> string list" where
  "tag_texts op = map (\<lambda>t. the_text (Some t)) (elements (read_prop op ''tags''))"

definition matches_search :: "string \<Rightarrow> string option \<Rightarrow> jsval \<Rightarrow> bool" where
  "matches_search query tag op =
     (let tags = map toLowerCase (tag_texts op) in
      (includes_str (toLowerCase (the_text (read_prop op ''summary''))) query
       \<or> includes_str (toLowerCase (the_text (read_prop op ''description''))) query
       \<or> list_ex (\<lambda>t. includes_str t query) tags)
      \<and> (case tag of None \<Rightarrow> True | Some t \<Rightarrow> t = [] \<or> t \<in> set tags))"

definition operations_of :: "jsval \<Rightarrow> jsval list" where
  "operations_of parsed =
     (if isArray (read_prop parsed ''operations'') then elements (read_prop parsed ''operations'')
      else elements (Some parsed))"

section \<open>Basic facts\<close>

lemma bindE_Inr [simp]: "bindE (Inr x) f = f x"
  by (simp add: bindE_def)

lemma bindE_Inl [simp]: "bindE (Inl e) f = Inl e"
  by (simp add: bindE_def)

lemma bindE_eq_Inr: "bindE m f = Inr y \<longleftrightarrow> (\<exists>x. m = Inr x \<and> f x = Inr y)"
  by (cases m) simp_all

lemma get_Some: "v \<noteq> JNull \<Longrightarrow> get (Some v) k = Inr (read_prop v k)"
  by (cases v) simp_all

lemma get_truthy: "truthy s \<Longrightarrow> get s k = Inr (read_prop (the s) k)"
  by (cases s rule: truthy.cases) simp_all

lemma assign_each_Inr:
  "(\<And>k v. (k, v) \<in> set es \<Longrightarrow> \<exists>x. f v = Inr x) \<Longrightarrow> \<exists>r. assign_each f es obj = Inr r"
proof (induction es arbitrary: obj)
  case Nil
  then show ?case by simp
next
  case (Cons e es)
  obtain k v where e: "e = (k, v)" by (cases e)
  obtain x where x: "f v = Inr x" using Cons.prems [of k v] e by auto
  have "\<exists>r. assign_each f es (assign obj k x) = Inr r"
    by (rule Cons.IH) (use Cons.prems in auto)
  then show ?case using e x by simp
qed

lemma generateExample_falsy: "\<not> truthy schema \<Longrightarrow> generateExample schema = Inr (JStr ''example'')"
  by (simp add: generateExample.simps)

lemma generateExample_truthy:
  assumes "truthy schema"
  shows "generateExample schema =
    (let r = read_prop (the schema) in
     case r ''example'' of Some v \<Rightarrow> Inr v | None \<Rightarrow>
     case r ''default'' of Some v \<Rightarrow> Inr v | None \<Rightarrow>
     if isArray (r ''enum'') \<and> length (elements (r ''enum'')) > 0
     then Inr (hd (elements (r ''enum'')))
     else if r ''type'' = Some (JStr ''string'') then Inr (JStr ''string'')
     else if r ''type'' = Some (JStr ''integer'') \<or> r ''type'' = Some (JStr ''number'')
       then Inr (JNum 0)
     else if r ''type'' = Some (JStr ''boolean'') then Inr (JBool True)
     else if r ''type'' = Some (JStr ''array'')
       then bindE (generateExample (r ''items'')) (\<lambda>x. Inr (JArr [x]))
     else if r ''type'' = Some (JStr ''object'')
       then (if truthy (r ''properties'')
             then assign_each (\<lambda>v. generateExample (Some v))
                    (Object_entries (the (r ''properties''))) (JObj [])
             else Inr (JObj []))
     else Inr (JStr ''example''))"
  by (subst generateExample.simps) (simp add: assms get_truthy Let_def cong: option.case_cong if_cong)

lemma generateExample_Inr: "\<exists>v. generateExample schema = Inr v"
proof (induction schema rule: generateExample.induct)
  case (1 schema)
  show ?case
  proof (cases "truthy schema")
    case False
    then show ?thesis by (simp add: generateExample_falsy)
  next
    case True
    note g = get_truthy [OF True]
    let ?r = "read_prop (the schema)"
    let ?enum = "isArray (?r ''enum'') \<and> length (elements (?r ''enum'')) > 0"
    show ?thesis
    proof (cases "?r ''example'' = None \<and> ?r ''default'' = None \<and> \<not> ?enum")
      case False
      then show ?thesis
        by (auto simp: generateExample_truthy [OF True] Let_def split: option.splits)
    next
      case pre: True
      show ?thesis
      proof (cases "?r ''type'' = Some (JStr ''array'')")
        case True
        have "\<exists>x. generateExample (?r ''items'') = Inr x"
          using "1.IH"(1) [of "?r ''example''" "?r ''default''" "?r ''enum''" "?r ''type''" "?r ''items''"]
            \<open>truthy schema\<close> g pre True by simp
        then show ?thesis using pre True
          by (auto simp: generateExample_truthy [OF \<open>truthy schema\<close>] Let_def)
      next
        case notarr: False
        show ?thesis
        proof (cases "?r ''type'' = Some (JStr ''object'') \<and> truthy (?r ''properties'')")
          case True
          have "\<exists>x. generateExample (Some v) = Inr x"
            if "(k, v) \<in> set (Object_entries (the (?r ''properties'')))" for k v
            using "1.IH"(2) [of "?r ''example''" "?r ''default''" "?r ''enum''" "?r ''type''" "?r ''properties''" k v]
              \<open>truthy schema\<close> g pre True that by simp
          then have "\<exists>x. assign_each (\<lambda>v. generateExample (Some v))
                    (Object_entries (the (?r ''properties''))) (JObj []) = Inr x"
            by (rule assign_each_Inr)
          then show ?thesis using pre True
            by (auto simp: generateExample_truthy [OF \<open>truthy schema\<close>] Let_def)
        next
          case False
          then show ?thesis using pre notarr
            by (auto simp: generateExample_truthy [OF \<open>truthy schema\<close>] Let_def)
        qed
      qed
    qed
  qed
qed

lemma get_eq_Inr: "get (Some p) k = Inr x \<longleftrightarrow> p \<noteq> JNull \<and> x = read_prop p k"
  by (cases p) auto

lemma text_of_Inr: "ToString v = Inr s \<Longrightarrow> text_of v = s"
  by (simp add: text_of_def)

lemma resolved_Inr: "example_or_generated (Some p) = Inr v \<Longrightarrow> resolved p = Some v"
  by (simp add: resolved_def)

lemma call_replace_Inr: "call_replace u pat rep = Inr r \<longleftrightarrow> (\<exists>t. u = JStr t \<and> r = replace_first pat rep t)"
  by (cases u) auto

lemma param_step_cases:
  assumes "param_step st p = Inr st'"
  obtains
    (path) v n s t where "located ''path'' p" "example_or_generated (Some p) = Inr v"
       "ToString (read_prop p ''name'') = Inr n" "ToString (Some v) = Inr s"
       "urlPath st = JStr t"
       "st' = st\<lparr>urlPath := JStr (replace_first (''{'' @ n @ ''}'') (encodeURIComponent s) t)\<rparr>"
  | (query) v n s where "located ''query'' p" "example_or_generated (Some p) = Inr v"
       "ToString (read_prop p ''name'') = Inr n" "ToString (Some v) = Inr s"
       "st' = st\<lparr>queryParams := queryParams st @ [encodeURIComponent n @ ''='' @ encodeURIComponent s]\<rparr>"
  | (header) v n s where "located ''header'' p" "example_or_generated (Some p) = Inr v"
       "ToString (read_prop p ''name'') = Inr n" "ToString (Some v) = Inr s"
       "st' = st\<lparr>headers := headers st @ [n @ '': '' @ s]\<rparr>"
  | (other) "\<not> located ''path'' p" "\<not> located ''query'' p" "\<not> located ''header'' p" "st' = st"
proof -
  obtain v where v: "example_or_generated (Some p) = Inr v"
    using assms by (auto simp: param_step_def bindE_eq_Inr)
  have nn: "p \<noteq> JNull" using v by (auto simp: example_or_generated_def bindE_eq_Inr get_eq_Inr)
  note g = get_Some [OF nn]
  consider "located ''path'' p" | "located ''query'' p" | "located ''header'' p"
    | "\<not> located ''path'' p" "\<not> located ''query'' p" "\<not> located ''header'' p" by blast
  then show thesis
  proof cases
    case 1
    then show ?thesis using assms v g path
      by (auto simp: param_step_def bindE_eq_Inr located_def call_replace_Inr)
  next
    case 2
    then show ?thesis using assms v g query
      by (auto simp: param_step_def bindE_eq_Inr located_def)
  next
    case 3
    then show ?thesis using assms v g header
      by (auto simp: param_step_def bindE_eq_Inr located_def)
  next
    case 4
    then show ?thesis using assms v g other
      by (auto simp: param_step_def bindE_eq_Inr located_def)
  qed
qed

lemma located_distinct:
  "located a p \<Longrightarrow> located b p \<Longrightarrow> a = b"
  by (simp add: located_def)

lemma param_step_refines:
  assumes "param_step st p = Inr st'"
  shows "queryParams st' = queryParams st @ query_items [p]"
    and "headers st' = headers st @ header_lines [p]"
    and "text_of (Some (urlPath st')) = substituted (text_of (Some (urlPath st))) [p]"
  using assms
proof (atomize (full), cases rule: param_step_cases)
  case (path v n s t)
  have "\<not> located ''query'' p" "\<not> located ''header'' p"
    using path(1) by (auto dest: located_distinct)
  then show "queryParams st' = queryParams st @ query_items [p] \<and>
    headers st' = headers st @ header_lines [p] \<and>
    text_of (Some (urlPath st')) = substituted (text_of (Some (urlPath st))) [p]"
    using path by (simp add: query_items_def header_lines_def substituted_def param_name_def
        param_value_def text_of_Inr resolved_Inr text_of_def [of "Some (JStr _)"])
next
  case (query v n s)
  have "\<not> located ''path'' p" "\<not> located ''header'' p"
    using query(1) by (auto dest: located_distinct)
  then show "queryParams st' = queryParams st @ query_items [p] \<and>
    headers st' = headers st @ header_lines [p] \<and>
    text_of (Some (urlPath st')) = substituted (text_of (Some (urlPath st))) [p]"
    using query by (simp add: query_items_def header_lines_def substituted_def param_name_def
        param_value_def text_of_Inr resolved_Inr)
next
  case (header v n s)
  have "\<not> located ''path'' p" "\<not> located ''query'' p"
    using header(1) by (auto dest: located_distinct)
  then show "queryParams st' = queryParams st @ query_items [p] \<and>
    headers st' = headers st @ header_lines [p] \<and>
    text_of (Some (urlPath st')) = substituted (text_of (Some (urlPath st))) [p]"
    using header by (simp add: query_items_def header_lines_def substituted_def param_name_def
        param_value_def text_of_Inr resolved_Inr)
next
  case other
  then show "queryParams st' = queryParams st @ query_items [p] \<and>
    headers st' = headers st @ header_lines [p] \<and>
    text_of (Some (urlPath st')) = substituted (text_of (Some (urlPath st))) [p]"
    by (simp add: query_items_def header_lines_def substituted_def)
qed

lemma run_params_refines:
  "run_params st ps = Inr st' \<Longrightarrow>
     queryParams st' = queryParams st @ query_items ps \<and>
     headers st' = headers st @ header_lines ps \<and>
     text_of (Some (urlPath st')) = substituted (text_of (Some (urlPath st))) ps"
proof (induction ps arbitrary: st)
  case Nil
  then show ?case by (simp add: query_items_def header_lines_def substituted_def)
next
  case (Cons p ps)
  obtain st1 where s1: "param_step st p = Inr st1" and r: "run_params st1 ps = Inr st'"
    using Cons.prems by (auto simp: bindE_eq_Inr)
  note a = param_step_refines [OF s1] and b = Cons.IH [OF r]
  have q: "query_items (p # ps) = query_items [p] @ query_items ps"
    by (simp add: query_items_def)
  have h: "header_lines (p # ps) = header_lines [p] @ header_lines ps"
    by (simp add: header_lines_def)
  have u: "substituted t (p # ps) = substituted (substituted t [p]) ps" for t
    by (simp add: substituted_def)
  show ?case using a b by (simp add: q h u)
qed

lemma elements_not_array: "\<not> isArray v \<Longrightarrow> elements v = []"
  by (cases v rule: isArray.cases) simp_all

lemma assemble_refines:
  assumes a: "assemble method path details = Inr out"
  shows "out = sample_command method path details"
proof -
  let ?r = "read_prop details"
  let ?ps = "elements (?r ''parameters'')"
  let ?server = "get_opt (get_opt (?r ''servers'') ''0'') ''url''"
  let ?serverUrl = "if nullish ?server then Some (JStr fallback_server) else ?server"
  let ?content = "get_opt (get_opt (?r ''requestBody'') ''content'') ''application/json''"
  let ?start = "\<lparr>urlPath = (if truthy (?r ''path'') then the (?r ''path'') else JStr path),
                  queryParams = [], headers = []\<rparr>"
  have nn: "details \<noteq> JNull"
    using a by (auto simp: assemble_def bindE_eq_Inr get_eq_Inr)
  note g = get_Some [OF nn]
  obtain st bh base p where
    st: "(if isArray (?r ''parameters'') then run_params ?start ?ps else Inr ?start) = Inr st"
    and bh: "(if truthy ?content
            then bindE (example_or_generated ?content) (\<lambda>b.
                 Inr (Some b, headers st @ [''Content-Type: application/json'']))
            else Inr (None, headers st)) = Inr bh"
    and base: "ToString ?serverUrl = Inr base"
    and p: "ToString (Some (urlPath st)) = Inr p"
    and out: "out = ''curl -X '' @ method @ '' '' @ quoted (base @ p
           @ (if length (queryParams st) > 0 then ''?'' @ join ''&'' (queryParams st) else []))
             @ concat (map (\<lambda>header. '' -H '' @ quoted header) (snd bh))
             @ (case fst bh of None \<Rightarrow> []
                | Some body \<Rightarrow> '' -d '' @ quoted (JSON_stringify body))"
    using a unfolding assemble_def Let_def g bindE_Inr by (auto simp: bindE_eq_Inr)
  have run: "run_params ?start ?ps = Inr st"
    using st by (cases "isArray (?r ''parameters'')") (simp_all add: elements_not_array)
  note rf = run_params_refines [OF run]
  have q: "queryParams st = query_items ?ps" using rf by simp
  have h: "headers st = header_lines ?ps" using rf by simp
  have tmpl: "text_of (Some (urlPath ?start)) =
      (if truthy (?r ''path'') then text_of (?r ''path'') else path)"
    by (cases "?r ''path''") (auto simp: text_of_def)
  have u: "p = substituted (if truthy (?r ''path'') then text_of (?r ''path'') else path) ?ps"
    using rf text_of_Inr [OF p] tmpl by simp
  have b: "base = (if nullish ?server then fallback_server else text_of ?server)"
    using base by (auto simp: text_of_def split: if_splits)
  show ?thesis
  proof (cases "truthy ?content")
    case True
    then obtain c where c: "?content = Some c" by (cases ?content) auto
    obtain body where body: "example_or_generated (Some c) = Inr body"
      and bh': "bh = (Some body, headers st @ [''Content-Type: application/json''])"
      using bh True c by (auto simp: bindE_eq_Inr)
    have "resolved c = Some body" using body by (rule resolved_Inr)
    then show ?thesis
      using True c bh' unfolding sample_command_def Let_def out q u b h by simp
  next
    case False
    then have "bh = (None, headers st)" using bh by simp
    then show ?thesis
      using False unfolding sample_command_def Let_def out q u b h by simp
  qed
qed


lemma map_of_upsert: "map_of (upsert kvs k v) k' = (if k' = k then Some v else map_of kvs k')"
  by (induction kvs) auto

lemma starts_with_take: "starts_with s p \<longleftrightarrow> take (length p) s = p"
  by (induction s p rule: starts_with.induct) auto

lemma starts_with_append: "starts_with (p @ r) p"
  by (simp add: starts_with_take)

lemma includes_str_iff: "includes_str s q \<longleftrightarrow> (\<exists>a b. s = a @ q @ b)"
proof (induction s)
  case Nil
  then show ?case by auto
next
  case (Cons c cs)
  show ?case
  proof
    assume "includes_str (c # cs) q"
    then consider "starts_with (c # cs) q" | "includes_str cs q" by auto
    then show "\<exists>a b. c # cs = a @ q @ b"
    proof cases
      case 1
      then have "c # cs = [] @ q @ drop (length q) (c # cs)"
        by (metis append_Nil append_take_drop_id starts_with_take)
      then show ?thesis by blast
    next
      case 2
      then obtain a b where "cs = a @ q @ b" using Cons.IH by auto
      then have "c # cs = (c # a) @ q @ b" by simp
      then show ?thesis by blast
    qed
  next
    assume "\<exists>a b. c # cs = a @ q @ b"
    then obtain a b where ab: "c # cs = a @ q @ b" by auto
    show "includes_str (c # cs) q"
    proof (cases a)
      case Nil
      then have "starts_with (c # cs) q" using ab by (simp add: starts_with_take)
      then show ?thesis by simp
    next
      case (Cons x a')
      then have "cs = a' @ q @ b" using ab by simp
      then have "includes_str cs q" using Cons.IH by auto
      then show ?thesis by simp
    qed
  qed
qed

lemma replace_first_absent: "\<not> includes_str t pat \<Longrightarrow> replace_first pat rep t = t"
  by (induction t) auto

lemma replace_first_at_first:
  assumes "pat \<noteq> []" and "\<not> includes_str (pre @ butlast pat) pat"
  shows "replace_first pat rep (pre @ pat @ post) = pre @ rep @ post"
  using assms(2)
proof (induction pre)
  case Nil
  obtain c cs where c: "pat @ post = c # cs" using assms(1) by (cases pat) auto
  have "starts_with (c # cs) pat" using starts_with_append [of pat post] c by simp
  then have "replace_first pat rep (c # cs) = rep @ drop (length pat) (c # cs)" by simp
  then show ?case using c by (metis append_Nil append_eq_conv_conj)
next
  case (Cons x pre)
  have n1: "\<not> starts_with (x # pre @ butlast pat) pat"
    and n2: "\<not> includes_str (pre @ butlast pat) pat"
    using Cons.prems by auto
  have len: "length pat \<le> length (x # pre @ butlast pat)" by simp
  have split: "x # pre @ pat @ post = (x # pre @ butlast pat) @ [last pat] @ post"
    using assms(1) by simp
  have "take (length pat) (x # pre @ pat @ post)
        = take (length pat) (x # pre @ butlast pat)"
    unfolding split using len by (simp only: take_append) simp
  then have "take (length pat) (x # pre @ pat @ post) = take (length pat) (x # pre @ butlast pat)" .
  then have "\<not> starts_with (x # pre @ pat @ post) pat"
    using n1 by (simp add: starts_with_take)
  then show ?case using Cons.IH [OF n2] by simp
qed

lemma digit_char_no_dollar: "n < 16 \<Longrightarrow> digit_char n \<noteq> CHR ''$''"
proof -
  assume "n < 16"
  then have "digit_char n \<in> set ''0123456789ABCDEF''"
    unfolding digit_char_def by (intro nth_mem) simp
  then show ?thesis by auto
qed

lemma percent_no_dollar: "n < 256 \<Longrightarrow> CHR ''$'' \<notin> set (percent n)"
proof -
  assume "n < 256"
  then have "n div 16 < 16" "n mod 16 < 16" by auto
  then show ?thesis
    using digit_char_no_dollar [of "n div 16"] digit_char_no_dollar [of "n mod 16"]
    by (auto simp: percent_def)
qed

lemma encode_unit_no_dollar: "CHR ''$'' \<notin> set (encode_unit c)"
proof -
  have b: "(of_char c :: nat) < 256" by simp
  have u: "\<not> unreserved (CHR ''$'')" by (simp add: unreserved_def)
  have "(of_char c :: nat) div 64 < 4" using b by (simp add: less_mult_imp_div_less)
  then have h: "192 + (of_char c :: nat) div 64 < 256" by simp
  have l: "128 + (of_char c :: nat) mod 64 < 256" by simp
  show ?thesis
    using percent_no_dollar [OF h] percent_no_dollar [OF l] percent_no_dollar [OF b] u
    by (auto simp: encode_unit_def Let_def)
qed

lemma encodeURIComponent_no_dollar: "CHR ''$'' \<notin> set (encodeURIComponent s)"
  by (auto simp: encodeURIComponent_def encode_unit_no_dollar)


lemma example_or_generated_Inr:
  "holder \<noteq> JNull \<Longrightarrow> \<exists>v. example_or_generated (Some holder) = Inr v"
  using generateExample_Inr [of "read_prop holder ''schema''"]
  by (auto simp: example_or_generated_def get_Some)

lemma example_or_generated_not_null:
  "example_or_generated (Some holder) = Inr v \<Longrightarrow> holder \<noteq> JNull"
  by (auto simp: example_or_generated_def)

lemma param_step_path:
  assumes "located ''path'' param" and "example_or_generated (Some param) = Inr v"
    and "ToString (read_prop param ''name'') = Inr n" and "ToString (Some v) = Inr s"
    and "urlPath st = JStr t"
  shows "param_step st param
         = Inr (st\<lparr>urlPath := JStr (replace_first (''{'' @ n @ ''}'') (encodeURIComponent s) t)\<rparr>)"
  using assms get_Some [OF example_or_generated_not_null [OF assms(2)]]
  by (simp add: param_step_def located_def)

lemma param_step_query:
  assumes "located ''query'' param" and "example_or_generated (Some param) = Inr v"
    and "ToString (read_prop param ''name'') = Inr n" and "ToString (Some v) = Inr s"
  shows "param_step st param
         = Inr (st\<lparr>queryParams := queryParams st
                  @ [encodeURIComponent n @ ''='' @ encodeURIComponent s]\<rparr>)"
  using assms get_Some [OF example_or_generated_not_null [OF assms(2)]]
  by (simp add: param_step_def located_def)

lemma param_step_header:
  assumes "located ''header'' param" and "example_or_generated (Some param) = Inr v"
    and "ToString (read_prop param ''name'') = Inr n" and "ToString (Some v) = Inr s"
  shows "param_step st param = Inr (st\<lparr>headers := headers st @ [n @ '': '' @ s]\<rparr>)"
  using assms get_Some [OF example_or_generated_not_null [OF assms(2)]]
  by (simp add: param_step_def located_def)

lemma param_step_other:
  assumes "param \<noteq> JNull" and "\<not> located ''path'' param" and "\<not> located ''query'' param"
    and "\<not> located ''header'' param"
  shows "param_step st param = Inr st"
proof -
  obtain v where "example_or_generated (Some param) = Inr v"
    using example_or_generated_Inr [OF assms(1)] by auto
  then show ?thesis using assms get_Some [OF assms(1)]
    by (simp add: param_step_def located_def)
qed

lemma call_toLowerCase_field:
  "text_or_missing v \<Longrightarrow>
     call_toLowerCase (if nullish v then JStr [] else the v) = Inr (toLowerCase (the_text v))"
  by (cases v rule: text_or_missing.cases) (simp_all add: toLowerCase_def)

lemma mapE_texts:
  "list_all is_text ts \<Longrightarrow>
     mapE call_toLowerCase ts = Inr (map toLowerCase (map (\<lambda>t. the_text (Some t)) ts))"
proof (induction ts)
  case Nil
  then show ?case by simp
next
  case (Cons t ts)
  then obtain s where "t = JStr s" by (cases t) auto
  then show ?case using Cons by simp
qed

lemma op_matches_typed:
  assumes "api_operation op"
  shows "op_matches query tag op = Inr (matches_search query tag op)"
proof -
  have nn: "op \<noteq> JNull" and su: "text_or_missing (read_prop op ''summary'')"
    and de: "text_or_missing (read_prop op ''description'')"
    and tg: "list_all is_text (elements (read_prop op ''tags''))"
    using assms by (simp_all add: api_operation_def)
  have tags: "(if isArray (read_prop op ''tags'')
               then mapE call_toLowerCase (elements (read_prop op ''tags'')) else Inr [])
              = Inr (map toLowerCase (tag_texts op))"
    using mapE_texts [OF tg]
    by (cases "isArray (read_prop op ''tags'')") (simp_all add: tag_texts_def elements_not_array)
  show ?thesis
    unfolding op_matches_def get_Some [OF nn] bindE_Inr
      call_toLowerCase_field [OF su] call_toLowerCase_field [OF de] tags
    by (cases tag) (auto simp: matches_search_def Let_def)
qed

lemma filterE_Inr:
  "list_all (\<lambda>x. f x = Inr (P x)) xs \<Longrightarrow> filterE f xs = Inr (filter P xs)"
  by (induction xs) simp_all

lemma convertibleE: "convertible v \<Longrightarrow> \<exists>s. ToString v = Inr s"
  by (cases "ToString v") (simp_all add: convertible_def)

lemma param_step_ok:
  assumes "parameter_ok param" and "urlPath st = JStr t"
  shows "\<exists>st' t'. param_step st param = Inr st' \<and> urlPath st' = JStr t'"
proof -
  have nn: "param \<noteq> JNull" using assms(1) by (simp add: parameter_ok_def)
  obtain v where v: "example_or_generated (Some param) = Inr v"
    using example_or_generated_Inr [OF nn] by auto
  have r: "resolved param = Some v" using v by (rule resolved_Inr)
  consider "located ''path'' param" | "located ''query'' param" | "located ''header'' param"
    | "\<not> located ''path'' param" "\<not> located ''query'' param" "\<not> located ''header'' param"
    by blast
  then show ?thesis
  proof cases
    case 1
    then obtain n s where "ToString (read_prop param ''name'') = Inr n" "ToString (Some v) = Inr s"
      using assms(1) r by (auto simp: parameter_ok_def dest!: convertibleE)
    then show ?thesis using param_step_path [OF 1 v _ _ assms(2)] by simp
  next
    case 2
    then obtain n s where "ToString (read_prop param ''name'') = Inr n" "ToString (Some v) = Inr s"
      using assms(1) r by (auto simp: parameter_ok_def dest!: convertibleE)
    then show ?thesis using param_step_query [OF 2 v, of n s st] assms(2) by simp
  next
    case 3
    then obtain n s where "ToString (read_prop param ''name'') = Inr n" "ToString (Some v) = Inr s"
      using assms(1) r by (auto simp: parameter_ok_def dest!: convertibleE)
    then show ?thesis using param_step_header [OF 3 v, of n s st] assms(2) by simp
  next
    case 4
    then show ?thesis using param_step_other [OF nn, of st] assms(2) by simp
  qed
qed

lemma run_params_ok:
  "list_all parameter_ok ps \<Longrightarrow> urlPath st = JStr t
   \<Longrightarrow> \<exists>st' t'. run_params st ps = Inr st' \<and> urlPath st' = JStr t'"
proof (induction ps arbitrary: st t)
  case Nil
  then show ?case by simp
next
  case (Cons p ps)
  obtain st1 t1 where s: "param_step st p = Inr st1" and u: "urlPath st1 = JStr t1"
    using param_step_ok [of p st t] Cons.prems by auto
  have "list_all parameter_ok ps" using Cons.prems by simp
  then show ?case using Cons.IH [OF _ u] s by simp
qed

lemma assemble_ok:
  assumes "request_document details"
  shows "\<exists>out. assemble method path details = Inr out"
proof -
  let ?r = "read_prop details"
  let ?ps = "elements (?r ''parameters'')"
  let ?server = "get_opt (get_opt (?r ''servers'') ''0'') ''url''"
  let ?content = "get_opt (get_opt (?r ''requestBody'') ''content'') ''application/json''"
  let ?start = "\<lparr>urlPath = (if truthy (?r ''path'') then the (?r ''path'') else JStr path),
                  queryParams = [], headers = []\<rparr>"
  have nn: "details \<noteq> JNull" and ps: "list_all parameter_ok ?ps"
    and sv: "convertible ?server"
    and pt: "truthy (?r ''path'') \<Longrightarrow> is_text (the (?r ''path''))"
    using assms by (simp_all add: request_document_def)
  note g = get_Some [OF nn]
  obtain t where t: "urlPath ?start = JStr t"
  proof (cases "truthy (?r ''path'')")
    case True
    then obtain s where "the (?r ''path'') = JStr s" using pt by (cases "the (?r ''path'')") auto
    then show ?thesis using that True by simp
  next
    case False
    then show ?thesis using that by simp
  qed
  obtain st t' where run: "run_params ?start ?ps = Inr st" and u: "urlPath st = JStr t'"
    using run_params_ok [OF ps t] by auto
  have loop: "(if isArray (?r ''parameters'') then run_params ?start ?ps else Inr ?start) = Inr st"
    using run by (cases "isArray (?r ''parameters'')") (simp_all add: elements_not_array)
  obtain bh where bh: "(if truthy ?content
            then bindE (example_or_generated ?content) (\<lambda>b.
                 Inr (Some b, headers st @ [''Content-Type: application/json'']))
            else Inr (None, headers st)) = Inr bh"
  proof (cases "truthy ?content")
    case True
    then obtain c where c: "?content = Some c" "c \<noteq> JNull" by (cases ?content rule: truthy.cases) auto
    obtain b where "example_or_generated (Some c) = Inr b"
      using example_or_generated_Inr [OF c(2)] by auto
    then show ?thesis using that True c by simp
  next
    case False
    then show ?thesis using that by simp
  qed
  obtain base where base: "ToString (if nullish ?server then Some (JStr fallback_server) else ?server)
      = Inr base"
    using convertibleE [OF sv] by (cases "nullish ?server") auto
  show ?thesis
    unfolding assemble_def Let_def g bindE_Inr loop bh base using u by simp
qed

lemma execute_generateApiSampleRequest_parsed:
  "JSON_parse detailsText = Some details \<Longrightarrow>
     execute_generateApiSampleRequest JSON_parse method path detailsText
       = assemble (toUpperCase method) path details"
  by (simp add: execute_generateApiSampleRequest_def)

lemma execute_generateApiSampleRequest_invalid:
  "JSON_parse detailsText = None \<Longrightarrow>
     execute_generateApiSampleRequest JSON_parse method path detailsText = Inl InvalidDetails"
  by (simp add: execute_generateApiSampleRequest_def)

lemma execute_searchApiOperations_parsed:
  "JSON_parse response = Some parsed \<Longrightarrow>
     execute_searchApiOperations JSON_parse query tag response = search_parsed query tag parsed"
  by (simp add: execute_searchApiOperations_def)

lemma execute_searchApiOperations_verbatim:
  "JSON_parse response = None \<Longrightarrow>
     execute_searchApiOperations JSON_parse query tag response = Inr response"
  by (simp add: execute_searchApiOperations_def)

lemma sample_command_template:
  "sample_command method path details
     = command_from_template method details
         (if truthy (read_prop details ''path'') then text_of (read_prop details ''path'')
          else path)"
  by (simp add: sample_command_def command_from_template_def Let_def)

section \<open>The example synthesizer: claims\<close>

text \<open>
  Claim C1 (the precedence rules of \<open>generateExample\<close>; in particular an \<open>object\<close> node
  yields a mapping with exactly the declared \<open>properties\<close> keys). The loop writes each
  entry with \<open>obj[key] = ...\<close>, and for the declared key \<open>__proto__\<close> that assignment creates
  no property: a schema that declares the single property \<open>__proto__\<close> of type \<open>string\<close>
  is synthesized to the empty mapping, serialized as \<open>{}\<close>.
\<close>

theorem generateExample_drops_proto_key:
  "map fst (Object_entries (JObj [(''__proto__'', JObj [(''type'', JStr ''string'')])]))
     = [''__proto__'']
   \<and> generateExample (Some (JObj [(''type'', JStr ''object''),
         (''properties'', JObj [(''__proto__'', JObj [(''type'', JStr ''string'')])])]))
       = Inr (JObj [])
   \<and> JSON_stringify (JObj []) = ''{}''"
  by code_simp

text \<open>
  Claim C7: \<open>generateExample\<close> terminates and returns a value on every node, absent,
  malformed or partial. The recursion is well-founded at every argument (the domain
  predicate of the definition holds everywhere: a node is a finite tree, and the calls
  descend into \<open>items\<close> and the entries of \<open>properties\<close>), no property read throws, and a
  node without \<open>example\<close>, \<open>default\<close>, a non-empty \<open>enum\<close> array or one of the six known
  types (so every node that is not an object, too) yields the placeholder \<open>example\<close>.
  The depth of the engine's call stack is not part of the model.
\<close>

theorem generateExample_total:
  "generateExample_dom schema
   \<and> (\<exists>v. generateExample schema = Inr v)
   \<and> (read_prop s ''example'' = None \<longrightarrow> read_prop s ''default'' = None \<longrightarrow>
        \<not> (isArray (read_prop s ''enum'') \<and> elements (read_prop s ''enum'') \<noteq> []) \<longrightarrow>
        read_prop s ''type'' \<notin> (\<lambda>t. Some (JStr t)) `
          {''string'', ''integer'', ''number'', ''boolean'', ''array'', ''object''} \<longrightarrow>
        generateExample (Some s) = Inr (JStr ''example''))"
proof (intro conjI impI)
  show "generateExample_dom schema" using generateExample_descends by simp
  show "\<exists>v. generateExample schema = Inr v" by (rule generateExample_Inr)
next
  assume a: "read_prop s ''example'' = None" "read_prop s ''default'' = None"
    "\<not> (isArray (read_prop s ''enum'') \<and> elements (read_prop s ''enum'') \<noteq> [])"
    "read_prop s ''type'' \<notin> (\<lambda>t. Some (JStr t)) `
          {''string'', ''integer'', ''number'', ''boolean'', ''array'', ''object''}"
  show "generateExample (Some s) = Inr (JStr ''example'')"
  proof (cases "truthy (Some s)")
    case True
    then show ?thesis using a by (auto simp: generateExample_truthy Let_def)
  next
    case False
    then show ?thesis by (rule generateExample_falsy)
  qed
qed

theorem generateExample_total_witness:
  "read_prop (JObj [(''type'', JStr ''date'')]) ''example'' = None
   \<and> read_prop (JObj [(''type'', JStr ''date'')]) ''default'' = None
   \<and> \<not> (isArray (read_prop (JObj [(''type'', JStr ''date'')]) ''enum'')
        \<and> elements (read_prop (JObj [(''type'', JStr ''date'')]) ''enum'') \<noteq> [])
   \<and> read_prop (JObj [(''type'', JStr ''date'')]) ''type'' \<notin> (\<lambda>t. Some (JStr t)) `
          {''string'', ''integer'', ''number'', ''boolean'', ''array'', ''object''}
   \<and> generateExample (Some (JObj [(''type'', JStr ''date'')])) = Inr (JStr ''example'')
   \<and> generateExample_dom (Some (JObj [(''type'', JStr ''date'')]))"
  using generateExample_total [of "Some (JObj [(''type'', JStr ''date'')])"
      "JObj [(''type'', JStr ''date'')]"]
  by simp

section \<open>The request assembler: claims\<close>

text \<open>
  Claim C4 as stated (the declared \<open>example\<close> is used whenever one is present, for any
  literal value, \<open>null\<close> included) fails: \<open>??\<close> skips a \<open>null\<close> example. A header parameter
  that declares \<open>example: null\<close> and a \<open>string\<close> schema gets the synthesized value
  \<open>string\<close>, not \<open>null\<close>.
\<close>

theorem null_example_is_skipped:
  "read_prop (JObj [(''name'', JStr ''h''), (''in'', JStr ''header''), (''example'', JNull),
                    (''schema'', JObj [(''type'', JStr ''string'')])]) ''example'' = Some JNull
   \<and> example_or_generated (Some (JObj [(''name'', JStr ''h''), (''in'', JStr ''header''),
          (''example'', JNull), (''schema'', JObj [(''type'', JStr ''string'')])]))
       = Inr (JStr ''string'')
   \<and> assemble ''GET'' ''/x'' (JObj [(''parameters'', JArr [JObj [(''name'', JStr ''h''),
          (''in'', JStr ''header''), (''example'', JNull),
          (''schema'', JObj [(''type'', JStr ''string'')])]])])
       = Inr (''curl -X GET '' @ quoted ''https://api.mastercard.com/x''
              @ '' -H '' @ quoted ''h: string'')"
  by code_simp

text \<open>
  Claim C4, amended: for a parameter, and for the \<open>application/json\<close> content, the value is
  the declared \<open>example\<close> when one is present and is not \<open>null\<close>, verbatim; when \<open>example\<close>
  is absent or \<open>null\<close> it is \<open>generateExample\<close> applied to the declared \<open>schema\<close> (which may
  be absent).
\<close>

theorem example_takes_precedence:
  assumes "holder \<noteq> JNull"
  shows "example_or_generated (Some holder) =
    (case read_prop holder ''example'' of
       None \<Rightarrow> generateExample (read_prop holder ''schema'')
     | Some JNull \<Rightarrow> generateExample (read_prop holder ''schema'')
     | Some v \<Rightarrow> Inr v)"
proof (cases "read_prop holder ''example''")
  case None
  then show ?thesis by (simp add: example_or_generated_def get_Some [OF assms])
next
  case (Some v)
  then show ?thesis
    by (cases v) (simp_all add: example_or_generated_def get_Some [OF assms])
qed

theorem example_takes_precedence_witness:
  "JObj [(''example'', JNum 5), (''schema'', JObj [(''type'', JStr ''string'')])] \<noteq> JNull
   \<and> example_or_generated
        (Some (JObj [(''example'', JNum 5), (''schema'', JObj [(''type'', JStr ''string'')])]))
       = Inr (JNum 5)"
  using example_takes_precedence
    [of "JObj [(''example'', JNum 5), (''schema'', JObj [(''type'', JStr ''string'')])]"]
  by simp

text \<open>
  Claim C5 as stated (the document's own \<open>path\<close> is the URL template whenever the field
  is present) fails: \<open>||\<close> skips a \<open>path\<close> that is present and falsy. With an empty text
  as the document's \<open>path\<close> and the caller's path \<open>/items/{id}\<close>, the placeholder of the
  caller's path is the one substituted.
\<close>

theorem empty_path_field_is_skipped:
  "read_prop (JObj [(''path'', JStr []), (''parameters'', JArr [JObj [(''name'', JStr ''id''),
          (''in'', JStr ''path''), (''example'', JNum 7)]])]) ''path'' = Some (JStr [])
   \<and> assemble ''GET'' ''/items/{id}'' (JObj [(''path'', JStr []),
         (''parameters'', JArr [JObj [(''name'', JStr ''id''), (''in'', JStr ''path''),
            (''example'', JNum 7)]])])
       = Inr (''curl -X GET '' @ quoted ''https://api.mastercard.com/items/7'')"
  by code_simp

text \<open>
  Claim C5, amended: the URL template is the document's own \<open>path\<close> whenever that field
  is truthy (for a text: not empty), and the caller's path when the document's \<open>path\<close> is
  absent or falsy (\<open>null\<close>, the empty text, \<open>0\<close>, \<open>false\<close>). Every returned command is the
  command built by substituting the path parameters into exactly that template, in which
  the other path does not occur; and on a \<open>request_document\<close>, where a truthy \<open>path\<close> is
  the text itself, the assembler returns it.
\<close>

theorem url_template_choice:
  "(assemble method path details = Inr out \<longrightarrow>
      (truthy (read_prop details ''path'') \<longrightarrow>
         out = command_from_template method details (text_of (read_prop details ''path'')))
      \<and> (\<not> truthy (read_prop details ''path'') \<longrightarrow>
         out = command_from_template method details path))
   \<and> (request_document details \<longrightarrow>
      (truthy (read_prop details ''path'') \<longrightarrow>
         read_prop details ''path'' = Some (JStr (text_of (read_prop details ''path'')))
         \<and> assemble method path details
             = Inr (command_from_template method details (text_of (read_prop details ''path''))))
      \<and> (\<not> truthy (read_prop details ''path'') \<longrightarrow>
         assemble method path details = Inr (command_from_template method details path)))"
proof -
  have partial: "out' = command_from_template method details
         (if truthy (read_prop details ''path'') then text_of (read_prop details ''path'')
          else path)"
    if "assemble method path details = Inr out'" for out'
    using assemble_refines [OF that] by (simp only: sample_command_template)
  have total: "assemble method path details = Inr (command_from_template method details
         (if truthy (read_prop details ''path'') then text_of (read_prop details ''path'')
          else path))"
    if rq: "request_document details"
  proof -
    obtain out' where o: "assemble method path details = Inr out'"
      using assemble_ok [OF rq] by blast
    show ?thesis using partial [OF o] o by simp
  qed
  have doc_text: "read_prop details ''path'' = Some (JStr (text_of (read_prop details ''path'')))"
    if rq: "request_document details" and tr: "truthy (read_prop details ''path'')"
  proof -
    have "is_text (the (read_prop details ''path''))"
      using rq tr by (simp add: request_document_def)
    then obtain s where "the (read_prop details ''path'') = JStr s"
      by (cases "the (read_prop details ''path'')") auto
    moreover obtain v where "read_prop details ''path'' = Some v"
      using tr by (cases "read_prop details ''path''") auto
    ultimately show ?thesis by (simp add: text_of_def)
  qed
  show ?thesis
  proof (intro conjI impI)
    assume a: "assemble method path details = Inr out"
    { assume "truthy (read_prop details ''path'')"
      then show "out = command_from_template method details (text_of (read_prop details ''path''))"
        using partial [OF a] by simp }
    { assume "\<not> truthy (read_prop details ''path'')"
      then show "out = command_from_template method details path"
        using partial [OF a] by simp }
  next
    assume r: "request_document details"
    { assume t: "truthy (read_prop details ''path'')"
      show "read_prop details ''path'' = Some (JStr (text_of (read_prop details ''path'')))"
        using doc_text [OF r t] .
      show "assemble method path details
             = Inr (command_from_template method details (text_of (read_prop details ''path'')))"
        using total [OF r] t by simp }
    { assume "\<not> truthy (read_prop details ''path'')"
      then show "assemble method path details = Inr (command_from_template method details path)"
        using total [OF r] by simp }
  qed
qed

theorem url_template_choice_witness:
  "request_document (JObj [(''path'', JStr ''/a/{id}''),
      (''parameters'', JArr [JObj [(''name'', JStr ''id''), (''in'', JStr ''path''),
                                   (''example'', JNum 7)]])])
   \<and> truthy (read_prop (JObj [(''path'', JStr ''/a/{id}''),
      (''parameters'', JArr [JObj [(''name'', JStr ''id''), (''in'', JStr ''path''),
                                   (''example'', JNum 7)]])]) ''path'')
   \<and> assemble ''GET'' ''/x/{id}'' (JObj [(''path'', JStr ''/a/{id}''),
      (''parameters'', JArr [JObj [(''name'', JStr ''id''), (''in'', JStr ''path''),
                                   (''example'', JNum 7)]])])
     = Inr (command_from_template ''GET'' (JObj [(''path'', JStr ''/a/{id}''),
      (''parameters'', JArr [JObj [(''name'', JStr ''id''), (''in'', JStr ''path''),
                                   (''example'', JNum 7)]])]) ''/a/{id}'')
   \<and> command_from_template ''GET'' (JObj [(''path'', JStr ''/a/{id}''),
      (''parameters'', JArr [JObj [(''name'', JStr ''id''), (''in'', JStr ''path''),
                                   (''example'', JNum 7)]])]) ''/a/{id}''
     = ''curl -X GET '' @ quoted ''https://api.mastercard.com/a/7''
   \<and> request_document (JObj [(''path'', JNull),
      (''parameters'', JArr [JObj [(''name'', JStr ''id''), (''in'', JStr ''path''),
                                   (''example'', JNum 7)]])])
   \<and> \<not> truthy (read_prop (JObj [(''path'', JNull),
      (''parameters'', JArr [JObj [(''name'', JStr ''id''), (''in'', JStr ''path''),
                                   (''example'', JNum 7)]])]) ''path'')
   \<and> assemble ''GET'' ''/x/{id}'' (JObj [(''path'', JNull),
      (''parameters'', JArr [JObj [(''name'', JStr ''id''), (''in'', JStr ''path''),
                                   (''example'', JNum 7)]])])
     = Inr (command_from_template ''GET'' (JObj [(''path'', JNull),
      (''parameters'', JArr [JObj [(''name'', JStr ''id''), (''in'', JStr ''path''),
                                   (''example'', JNum 7)]])]) ''/x/{id}'')
   \<and> command_from_template ''GET'' (JObj [(''path'', JNull),
      (''parameters'', JArr [JObj [(''name'', JStr ''id''), (''in'', JStr ''path''),
                                   (''example'', JNum 7)]])]) ''/x/{id}''
     = ''curl -X GET '' @ quoted ''https://api.mastercard.com/x/7''"
proof -
  let ?ps = "JArr [JObj [(''name'', JStr ''id''), (''in'', JStr ''path''), (''example'', JNum 7)]]"
  let ?d = "JObj [(''path'', JStr ''/a/{id}''), (''parameters'', ?ps)]"
  let ?e = "JObj [(''path'', JNull), (''parameters'', ?ps)]"
  have rd: "request_document ?d" and re: "request_document ?e" by code_simp+
  have td: "truthy (read_prop ?d ''path'')" and te: "\<not> truthy (read_prop ?e ''path'')"
    by simp_all
  have xd: "text_of (read_prop ?d ''path'') = ''/a/{id}''" by (simp add: text_of_def)
  have cd: "command_from_template ''GET'' ?d ''/a/{id}''
     = ''curl -X GET '' @ quoted ''https://api.mastercard.com/a/7''"
    by code_simp
  have ce: "command_from_template ''GET'' ?e ''/x/{id}''
     = ''curl -X GET '' @ quoted ''https://api.mastercard.com/x/7''"
    by code_simp
  note t1 = url_template_choice [of "''GET''" "''/x/{id}''" ?d "[]", THEN conjunct2, THEN mp, OF rd,
      THEN conjunct1, THEN mp, OF td, THEN conjunct2]
  note t2 = url_template_choice [of "''GET''" "''/x/{id}''" ?e "[]", THEN conjunct2, THEN mp, OF re,
      THEN conjunct2, THEN mp, OF te]
  have ad: "assemble ''GET'' ''/x/{id}'' ?d = Inr (command_from_template ''GET'' ?d ''/a/{id}'')"
    using t1 unfolding xd .
  show ?thesis by (intro conjI) (rule rd td ad cd re te t2 ce)+
qed

text \<open>
  Claim C3: for a parameter with \<open>in\<close> equal to \<open>path\<close>, whose name and resolved value
  have the string forms \<open>n\<close> and \<open>s\<close>, one loop iteration on a text template \<open>t\<close> returns
  with the template \<open>t.replace("{n}", encodeURIComponent(s))\<close> and changes nothing else.
  That replacement is literal (no \<open>$\<close> occurs in the encoded value) and hits the first
  occurrence only: when \<open>t\<close> is \<open>pre\<close>, then \<open>{n}\<close>, then \<open>post\<close>, with no occurrence of \<open>{n}\<close>
  that starts inside \<open>pre\<close>, the new template is \<open>pre\<close>, the encoded value, \<open>post\<close>. When
  \<open>{n}\<close> does not occur in \<open>t\<close>, the iteration returns the state it was given: the
  parameter is dropped and nothing is thrown.
\<close>

theorem path_parameter_substitution:
  assumes "located ''path'' param" and "example_or_generated (Some param) = Inr v"
    and "ToString (read_prop param ''name'') = Inr n" and "ToString (Some v) = Inr s"
    and "urlPath st = JStr t"
  shows "param_step st param
         = Inr (st\<lparr>urlPath := JStr (replace_first (''{'' @ n @ ''}'') (encodeURIComponent s) t)\<rparr>)
     \<and> (\<forall>pre post. t = pre @ (''{'' @ n @ ''}'') @ post
            \<and> \<not> includes_str (pre @ ''{'' @ n) (''{'' @ n @ ''}'')
          \<longrightarrow> param_step st param = Inr (st\<lparr>urlPath := JStr (pre @ encodeURIComponent s @ post)\<rparr>))
     \<and> (\<not> includes_str t (''{'' @ n @ ''}'') \<longrightarrow> param_step st param = Inr st)
     \<and> CHR ''$'' \<notin> set (encodeURIComponent s)"
proof (intro conjI allI impI)
  note step = param_step_path [OF assms]
  show "param_step st param
         = Inr (st\<lparr>urlPath := JStr (replace_first (''{'' @ n @ ''}'') (encodeURIComponent s) t)\<rparr>)"
    by (rule step)
  show "CHR ''$'' \<notin> set (encodeURIComponent s)" by (rule encodeURIComponent_no_dollar)
  {
    assume "\<not> includes_str t (''{'' @ n @ ''}'')"
    then have "replace_first (''{'' @ n @ ''}'') (encodeURIComponent s) t = t"
      by (rule replace_first_absent)
    then show "param_step st param = Inr st" using step assms(5) by simp
  }
  {
    fix pre post
    assume a: "t = pre @ (''{'' @ n @ ''}'') @ post
            \<and> \<not> includes_str (pre @ ''{'' @ n) (''{'' @ n @ ''}'')"
    have b: "butlast (''{'' @ n @ ''}'') = ''{'' @ n" by (simp add: butlast_append)
    have "replace_first (''{'' @ n @ ''}'') (encodeURIComponent s) (pre @ (''{'' @ n @ ''}'') @ post)
          = pre @ encodeURIComponent s @ post"
      by (rule replace_first_at_first) (use a b in simp_all)
    then show "param_step st param = Inr (st\<lparr>urlPath := JStr (pre @ encodeURIComponent s @ post)\<rparr>)"
      using step a by simp
  }
qed

theorem path_parameter_substitution_witness:
  "param_step \<lparr>urlPath = JStr ''/payments/{paymentId}'', queryParams = [], headers = []\<rparr>
     (JObj [(''name'', JStr ''paymentId''), (''in'', JStr ''path''),
            (''schema'', JObj [(''type'', JStr ''string'')])])
   = Inr \<lparr>urlPath = JStr ''/payments/string'', queryParams = [], headers = []\<rparr>
   \<and> param_step \<lparr>urlPath = JStr ''/payments'', queryParams = [], headers = []\<rparr>
     (JObj [(''name'', JStr ''paymentId''), (''in'', JStr ''path''),
            (''schema'', JObj [(''type'', JStr ''string'')])])
   = Inr \<lparr>urlPath = JStr ''/payments'', queryParams = [], headers = []\<rparr>"
proof -
  let ?p = "JObj [(''name'', JStr ''paymentId''), (''in'', JStr ''path''),
            (''schema'', JObj [(''type'', JStr ''string'')])]"
  have l: "located ''path'' ?p" by (simp add: located_def)
  have v: "example_or_generated (Some ?p) = Inr (JStr ''string'')" by code_simp
  have n: "ToString (read_prop ?p ''name'') = Inr ''paymentId''" by simp
  have s: "ToString (Some (JStr ''string'')) = Inr ''string''" by simp
  have e: "encodeURIComponent ''string'' = ''string''" by code_simp
  have i1: "\<not> includes_str (''/payments/'' @ ''{'' @ ''paymentId'') (''{'' @ ''paymentId'' @ ''}'')"
    by code_simp
  have i2: "\<not> includes_str ''/payments'' (''{'' @ ''paymentId'' @ ''}'')"
    by code_simp
  have a: "param_step \<lparr>urlPath = JStr ''/payments/{paymentId}'', queryParams = [], headers = []\<rparr> ?p
     = Inr \<lparr>urlPath = JStr ''/payments/string'', queryParams = [], headers = []\<rparr>"
    using path_parameter_substitution [OF l v n s,
        of "\<lparr>urlPath = JStr ''/payments/{paymentId}'', queryParams = [], headers = []\<rparr>"
           "''/payments/{paymentId}''"] i1 e
    by (auto dest!: spec [of _ "''/payments/''"] spec [of _ "[]"])
  have b: "param_step \<lparr>urlPath = JStr ''/payments'', queryParams = [], headers = []\<rparr> ?p
     = Inr \<lparr>urlPath = JStr ''/payments'', queryParams = [], headers = []\<rparr>"
    using path_parameter_substitution [OF l v n s,
        of "\<lparr>urlPath = JStr ''/payments'', queryParams = [], headers = []\<rparr>" "''/payments''"] i2
    by simp
  show ?thesis using a b by simp
qed

text \<open>
  Claim C6: one loop iteration on a \<open>query\<close> parameter appends
  \<open>encodeURIComponent(name) = encodeURIComponent(value)\<close> to the query sequence; on a
  \<open>header\<close> parameter it appends \<open>name: value\<close> with nothing encoded; on a parameter
  with any other \<open>in\<close> (or none) it returns the state unchanged. Name and value enter
  in their string forms (\<open>true\<close> for the boolean, \<open>0\<close> for the number). Over the whole
  parameter sequence the query items and the header lines come in declaration order.
\<close>

theorem query_and_header_parameters:
  "(located ''query'' param \<longrightarrow> example_or_generated (Some param) = Inr v \<longrightarrow>
      ToString (read_prop param ''name'') = Inr n \<longrightarrow> ToString (Some v) = Inr s \<longrightarrow>
      param_step st param
        = Inr (st\<lparr>queryParams := queryParams st
                 @ [encodeURIComponent n @ ''='' @ encodeURIComponent s]\<rparr>))
   \<and> (located ''header'' param \<longrightarrow> example_or_generated (Some param) = Inr v \<longrightarrow>
      ToString (read_prop param ''name'') = Inr n \<longrightarrow> ToString (Some v) = Inr s \<longrightarrow>
      param_step st param = Inr (st\<lparr>headers := headers st @ [n @ '': '' @ s]\<rparr>))
   \<and> (param \<noteq> JNull \<longrightarrow> \<not> located ''path'' param \<longrightarrow> \<not> located ''query'' param \<longrightarrow>
      \<not> located ''header'' param \<longrightarrow> param_step st param = Inr st)
   \<and> (run_params st ps = Inr st' \<longrightarrow>
      queryParams st' = queryParams st
        @ map (\<lambda>p. encodeURIComponent (param_name p) @ ''='' @ encodeURIComponent (param_value p))
            (filter (located ''query'') ps)
      \<and> headers st' = headers st
        @ map (\<lambda>p. param_name p @ '': '' @ param_value p) (filter (located ''header'') ps))
   \<and> ToString (Some (JBool True)) = Inr ''true''
   \<and> ToString (Some (JNum 0)) = Inr ''0''"
proof (intro conjI impI)
  show "ToString (Some (JBool True)) = Inr ''true''" by simp
  show "ToString (Some (JNum 0)) = Inr ''0''"
    by (simp add: number_text_def digits.simps digit_char_def)
next
  assume "located ''query'' param" "example_or_generated (Some param) = Inr v"
    "ToString (read_prop param ''name'') = Inr n" "ToString (Some v) = Inr s"
  then show "param_step st param
        = Inr (st\<lparr>queryParams := queryParams st
                 @ [encodeURIComponent n @ ''='' @ encodeURIComponent s]\<rparr>)"
    by (rule param_step_query)
next
  assume "located ''header'' param" "example_or_generated (Some param) = Inr v"
    "ToString (read_prop param ''name'') = Inr n" "ToString (Some v) = Inr s"
  then show "param_step st param = Inr (st\<lparr>headers := headers st @ [n @ '': '' @ s]\<rparr>)"
    by (rule param_step_header)
next
  assume "param \<noteq> JNull" "\<not> located ''path'' param" "\<not> located ''query'' param"
    "\<not> located ''header'' param"
  then show "param_step st param = Inr st" by (rule param_step_other)
next
  assume r: "run_params st ps = Inr st'"
  show "queryParams st' = queryParams st
        @ map (\<lambda>p. encodeURIComponent (param_name p) @ ''='' @ encodeURIComponent (param_value p))
            (filter (located ''query'') ps)"
    using run_params_refines [OF r] by (simp add: query_items_def)
  show "headers st' = headers st
        @ map (\<lambda>p. param_name p @ '': '' @ param_value p) (filter (located ''header'') ps)"
    using run_params_refines [OF r] by (simp add: header_lines_def)
qed

theorem query_and_header_parameters_witness:
  "param_step \<lparr>urlPath = JStr ''/p'', queryParams = [], headers = []\<rparr>
       (JObj [(''name'', JStr ''a b''), (''in'', JStr ''query''),
              (''schema'', JObj [(''type'', JStr ''integer'')])])
     = Inr \<lparr>urlPath = JStr ''/p'', queryParams = [''a%20b=0''], headers = []\<rparr>
   \<and> param_step \<lparr>urlPath = JStr ''/p'', queryParams = [], headers = []\<rparr>
       (JObj [(''name'', JStr ''X-Flag''), (''in'', JStr ''header''),
              (''schema'', JObj [(''type'', JStr ''boolean'')])])
     = Inr \<lparr>urlPath = JStr ''/p'', queryParams = [], headers = [''X-Flag: true'']\<rparr>
   \<and> param_step \<lparr>urlPath = JStr ''/p'', queryParams = [], headers = []\<rparr>
       (JObj [(''name'', JStr ''sid''), (''in'', JStr ''cookie''), (''example'', JStr ''z'')])
     = Inr \<lparr>urlPath = JStr ''/p'', queryParams = [], headers = []\<rparr>
   \<and> run_params \<lparr>urlPath = JStr ''/p'', queryParams = [], headers = []\<rparr>
     [JObj [(''name'', JStr ''a b''), (''in'', JStr ''query''),
            (''schema'', JObj [(''type'', JStr ''integer'')])],
      JObj [(''name'', JStr ''X-Flag''), (''in'', JStr ''header''),
            (''schema'', JObj [(''type'', JStr ''boolean'')])],
      JObj [(''name'', JStr ''sid''), (''in'', JStr ''cookie''), (''example'', JStr ''z'')],
      JObj [(''name'', JStr ''q''), (''in'', JStr ''query''), (''example'', JStr ''x/y'')],
      JObj [(''name'', JStr ''X-Auth''), (''in'', JStr ''header''), (''example'', JStr ''k v'')]]
   = Inr \<lparr>urlPath = JStr ''/p'', queryParams = [''a%20b=0'', ''q=x%2Fy''],
          headers = [''X-Flag: true'', ''X-Auth: k v'']\<rparr>
   \<and> map (\<lambda>p. encodeURIComponent (param_name p) @ ''='' @ encodeURIComponent (param_value p))
       (filter (located ''query'')
     [JObj [(''name'', JStr ''a b''), (''in'', JStr ''query''),
            (''schema'', JObj [(''type'', JStr ''integer'')])],
      JObj [(''name'', JStr ''X-Flag''), (''in'', JStr ''header''),
            (''schema'', JObj [(''type'', JStr ''boolean'')])],
      JObj [(''name'', JStr ''sid''), (''in'', JStr ''cookie''), (''example'', JStr ''z'')],
      JObj [(''name'', JStr ''q''), (''in'', JStr ''query''), (''example'', JStr ''x/y'')],
      JObj [(''name'', JStr ''X-Auth''), (''in'', JStr ''header''), (''example'', JStr ''k v'')]])
     = [''a%20b=0'', ''q=x%2Fy'']
   \<and> map (\<lambda>p. param_name p @ '': '' @ param_value p)
       (filter (located ''header'')
     [JObj [(''name'', JStr ''a b''), (''in'', JStr ''query''),
            (''schema'', JObj [(''type'', JStr ''integer'')])],
      JObj [(''name'', JStr ''X-Flag''), (''in'', JStr ''header''),
            (''schema'', JObj [(''type'', JStr ''boolean'')])],
      JObj [(''name'', JStr ''sid''), (''in'', JStr ''cookie''), (''example'', JStr ''z'')],
      JObj [(''name'', JStr ''q''), (''in'', JStr ''query''), (''example'', JStr ''x/y'')],
      JObj [(''name'', JStr ''X-Auth''), (''in'', JStr ''header''), (''example'', JStr ''k v'')]])
     = [''X-Flag: true'', ''X-Auth: k v'']"
proof -
  let ?st = "\<lparr>urlPath = JStr ''/p'', queryParams = [], headers = []\<rparr>"
  let ?q = "JObj [(''name'', JStr ''a b''), (''in'', JStr ''query''),
            (''schema'', JObj [(''type'', JStr ''integer'')])]"
  let ?h = "JObj [(''name'', JStr ''X-Flag''), (''in'', JStr ''header''),
            (''schema'', JObj [(''type'', JStr ''boolean'')])]"
  let ?c = "JObj [(''name'', JStr ''sid''), (''in'', JStr ''cookie''), (''example'', JStr ''z'')]"
  let ?ps = "[?q, ?h, ?c,
      JObj [(''name'', JStr ''q''), (''in'', JStr ''query''), (''example'', JStr ''x/y'')],
      JObj [(''name'', JStr ''X-Auth''), (''in'', JStr ''header''), (''example'', JStr ''k v'')]]"
  let ?st' = "\<lparr>urlPath = JStr ''/p'', queryParams = [''a%20b=0'', ''q=x%2Fy''],
          headers = [''X-Flag: true'', ''X-Auth: k v'']\<rparr>"
  have q: "located ''query'' ?q" "example_or_generated (Some ?q) = Inr (JNum 0)"
    "ToString (read_prop ?q ''name'') = Inr ''a b''" "ToString (Some (JNum 0)) = Inr ''0''"
    "encodeURIComponent ''a b'' @ ''='' @ encodeURIComponent ''0'' = ''a%20b=0''"
    by code_simp+
  have h: "located ''header'' ?h" "example_or_generated (Some ?h) = Inr (JBool True)"
    "ToString (read_prop ?h ''name'') = Inr ''X-Flag''" "ToString (Some (JBool True)) = Inr ''true''"
    by code_simp+
  have c: "?c \<noteq> JNull" "\<not> located ''path'' ?c" "\<not> located ''query'' ?c" "\<not> located ''header'' ?c"
    by (simp_all add: located_def)
  have r: "run_params ?st ?ps = Inr ?st'"
    by code_simp
  have 1: "param_step ?st ?q = Inr \<lparr>urlPath = JStr ''/p'', queryParams = [''a%20b=0''], headers = []\<rparr>"
    using query_and_header_parameters [where param = ?q and v = "JNum 0" and n = "''a b''"
        and s = "''0''" and st = ?st] q
    by simp
  have 2: "param_step ?st ?h = Inr \<lparr>urlPath = JStr ''/p'', queryParams = [], headers = [''X-Flag: true'']\<rparr>"
    using query_and_header_parameters [where param = ?h and v = "JBool True" and n = "''X-Flag''"
        and s = "''true''" and st = ?st] h
    by simp
  have 3: "param_step ?st ?c = Inr ?st"
    using query_and_header_parameters [where param = ?c and st = ?st] c by simp
  have 4: "queryParams ?st' = queryParams ?st
        @ map (\<lambda>p. encodeURIComponent (param_name p) @ ''='' @ encodeURIComponent (param_value p))
            (filter (located ''query'') ?ps)
      \<and> headers ?st' = headers ?st
        @ map (\<lambda>p. param_name p @ '': '' @ param_value p) (filter (located ''header'') ?ps)"
    using query_and_header_parameters [where st = ?st and ps = ?ps and st' = ?st'] r by blast
  show ?thesis using 1 2 3 4 r by simp
qed

text \<open>
  Claim C2: whenever the assembler returns a command for a document, an upper-cased
  method and a caller's path, the command is exactly \<open>sample_command\<close>, and it does
  return on every \<open>request_document\<close>. \<open>sample_command\<close> is \<open>curl -X\<close>, the
  method, the quoted URL (the first server's \<open>url\<close> or the fallback base, then the
  substituted template, then \<open>?\<close> and the query items joined by \<open>&\<close> when there are any),
  one \<open>-H\<close> segment per header line in declaration order, then the
  \<open>Content-Type: application/json\<close> segment and the \<open>-d\<close> segment with the serialized
  body, both exactly when the document has an \<open>application/json\<close> content.
\<close>

theorem assembled_command_format:
  "(assemble (toUpperCase method) path details = Inr out \<longrightarrow>
      out = sample_command (toUpperCase method) path details)
   \<and> (request_document details \<longrightarrow>
      assemble (toUpperCase method) path details
        = Inr (sample_command (toUpperCase method) path details))"
proof (intro conjI impI)
  assume "assemble (toUpperCase method) path details = Inr out"
  then show "out = sample_command (toUpperCase method) path details"
    by (rule assemble_refines)
next
  assume "request_document details"
  then obtain out where o: "assemble (toUpperCase method) path details = Inr out"
    using assemble_ok by blast
  then have "out = sample_command (toUpperCase method) path details"
    by (rule assemble_refines)
  then show "assemble (toUpperCase method) path details
        = Inr (sample_command (toUpperCase method) path details)"
    using o by simp
qed

theorem assembled_command_format_witness:
  "request_document
     (JObj [(''servers'', JArr [JObj [(''url'', JStr ''https://api.example.com'')]]),
        (''path'', JStr ''/payments/{paymentId}''),
        (''parameters'', JArr [
           JObj [(''name'', JStr ''paymentId''), (''in'', JStr ''path''),
                 (''schema'', JObj [(''type'', JStr ''string'')])],
           JObj [(''name'', JStr ''verbose''), (''in'', JStr ''query''),
                 (''schema'', JObj [(''type'', JStr ''boolean'')])],
           JObj [(''name'', JStr ''X-Auth''), (''in'', JStr ''header''),
                 (''schema'', JObj [(''type'', JStr ''string'')])]]),
        (''requestBody'', JObj [(''content'', JObj [(''application/json'', JObj [(''schema'',
           JObj [(''type'', JStr ''object''),
                 (''properties'', JObj [(''amount'', JObj [(''type'', JStr ''number'')])])])])])])])
   \<and> assemble (toUpperCase ''post'') ''/payments/{paymentId}''
     (JObj [(''servers'', JArr [JObj [(''url'', JStr ''https://api.example.com'')]]),
        (''path'', JStr ''/payments/{paymentId}''),
        (''parameters'', JArr [
           JObj [(''name'', JStr ''paymentId''), (''in'', JStr ''path''),
                 (''schema'', JObj [(''type'', JStr ''string'')])],
           JObj [(''name'', JStr ''verbose''), (''in'', JStr ''query''),
                 (''schema'', JObj [(''type'', JStr ''boolean'')])],
           JObj [(''name'', JStr ''X-Auth''), (''in'', JStr ''header''),
                 (''schema'', JObj [(''type'', JStr ''string'')])]]),
        (''requestBody'', JObj [(''content'', JObj [(''application/json'', JObj [(''schema'',
           JObj [(''type'', JStr ''object''),
                 (''properties'', JObj [(''amount'', JObj [(''type'', JStr ''number'')])])])])])])])
   = Inr (''curl -X POST '' @ quoted ''https://api.example.com/payments/string?verbose=true''
          @ '' -H '' @ quoted ''X-Auth: string''
          @ '' -H '' @ quoted ''Content-Type: application/json''
          @ '' -d '' @ quoted (''{'' @ [CHR 0x22] @ ''amount'' @ [CHR 0x22] @ '':0}''))
   \<and> sample_command (toUpperCase ''post'') ''/payments/{paymentId}''
     (JObj [(''servers'', JArr [JObj [(''url'', JStr ''https://api.example.com'')]]),
        (''path'', JStr ''/payments/{paymentId}''),
        (''parameters'', JArr [
           JObj [(''name'', JStr ''paymentId''), (''in'', JStr ''path''),
                 (''schema'', JObj [(''type'', JStr ''string'')])],
           JObj [(''name'', JStr ''verbose''), (''in'', JStr ''query''),
                 (''schema'', JObj [(''type'', JStr ''boolean'')])],
           JObj [(''name'', JStr ''X-Auth''), (''in'', JStr ''header''),
                 (''schema'', JObj [(''type'', JStr ''string'')])]]),
        (''requestBody'', JObj [(''content'', JObj [(''application/json'', JObj [(''schema'',
           JObj [(''type'', JStr ''object''),
                 (''properties'', JObj [(''amount'', JObj [(''type'', JStr ''number'')])])])])])])])
   = ''curl -X POST '' @ quoted ''https://api.example.com/payments/string?verbose=true''
          @ '' -H '' @ quoted ''X-Auth: string''
          @ '' -H '' @ quoted ''Content-Type: application/json''
          @ '' -d '' @ quoted (''{'' @ [CHR 0x22] @ ''amount'' @ [CHR 0x22] @ '':0}'')"
proof -
  let ?doc = "JObj [(''servers'', JArr [JObj [(''url'', JStr ''https://api.example.com'')]]),
        (''path'', JStr ''/payments/{paymentId}''),
        (''parameters'', JArr [
           JObj [(''name'', JStr ''paymentId''), (''in'', JStr ''path''),
                 (''schema'', JObj [(''type'', JStr ''string'')])],
           JObj [(''name'', JStr ''verbose''), (''in'', JStr ''query''),
                 (''schema'', JObj [(''type'', JStr ''boolean'')])],
           JObj [(''name'', JStr ''X-Auth''), (''in'', JStr ''header''),
                 (''schema'', JObj [(''type'', JStr ''string'')])]]),
        (''requestBody'', JObj [(''content'', JObj [(''application/json'', JObj [(''schema'',
           JObj [(''type'', JStr ''object''),
                 (''properties'', JObj [(''amount'', JObj [(''type'', JStr ''number'')])])])])])])]"
  have w: "request_document ?doc" by code_simp
  have a: "assemble (toUpperCase ''post'') ''/payments/{paymentId}'' ?doc
   = Inr (''curl -X POST '' @ quoted ''https://api.example.com/payments/string?verbose=true''
          @ '' -H '' @ quoted ''X-Auth: string''
          @ '' -H '' @ quoted ''Content-Type: application/json''
          @ '' -d '' @ quoted (''{'' @ [CHR 0x22] @ ''amount'' @ [CHR 0x22] @ '':0}''))"
    by code_simp
  note t = assembled_command_format [of "''post''" "''/payments/{paymentId}''" ?doc
      "''curl -X POST '' @ quoted ''https://api.example.com/payments/string?verbose=true''
          @ '' -H '' @ quoted ''X-Auth: string''
          @ '' -H '' @ quoted ''Content-Type: application/json''
          @ '' -d '' @ quoted (''{'' @ [CHR 0x22] @ ''amount'' @ [CHR 0x22] @ '':0}'')"]
  have s: "sample_command (toUpperCase ''post'') ''/payments/{paymentId}'' ?doc
     = ''curl -X POST '' @ quoted ''https://api.example.com/payments/string?verbose=true''
          @ '' -H '' @ quoted ''X-Auth: string''
          @ '' -H '' @ quoted ''Content-Type: application/json''
          @ '' -d '' @ quoted (''{'' @ [CHR 0x22] @ ''amount'' @ [CHR 0x22] @ '':0}'')"
    by (rule sym) (rule t [THEN conjunct1, THEN mp, OF a])
  show ?thesis by (intro conjI) (rule w a s)+
qed

text \<open>
  Claim C10: for a document with an \<open>application/json\<close> content, the returned command
  contains, in a row, one \<open>-H\<close> segment for every \<open>header\<close> parameter (one per parameter,
  whatever their names) and then the \<open>-H 'Content-Type: application/json'\<close> segment. A
  header parameter that is itself named \<open>Content-Type\<close> gives two such segments.
\<close>

theorem headers_are_not_deduplicated:
  assumes "assemble method path details = Inr out"
    and "truthy (get_opt (get_opt (read_prop details ''requestBody'') ''content'')
           ''application/json'')"
  shows "\<exists>pre post. out = pre
           @ concat (map (\<lambda>h. '' -H '' @ quoted h)
               (map (\<lambda>p. param_name p @ '': '' @ param_value p)
                  (filter (located ''header'') (elements (read_prop details ''parameters'')))
                @ [''Content-Type: application/json'']))
           @ post"
proof -
  let ?ps = "elements (read_prop details ''parameters'')"
  let ?content = "get_opt (get_opt (read_prop details ''requestBody'') ''content'')
           ''application/json''"
  let ?url = "(if nullish (get_opt (get_opt (read_prop details ''servers'') ''0'') ''url'')
               then fallback_server
               else text_of (get_opt (get_opt (read_prop details ''servers'') ''0'') ''url''))
      @ substituted (if truthy (read_prop details ''path'')
                     then text_of (read_prop details ''path'') else path) ?ps
      @ (if query_items ?ps = [] then [] else ''?'' @ join ''&'' (query_items ?ps))"
  let ?pre = "''curl -X '' @ method @ '' '' @ quoted ?url"
  let ?post = "'' -d '' @ quoted (JSON_stringify (the (resolved (the ?content))))"
  have "out = sample_command method path details" using assms(1) by (rule assemble_refines)
  then have "out = ?pre
     @ concat (map (\<lambda>h. '' -H '' @ quoted h) (header_lines ?ps @ [''Content-Type: application/json'']))
     @ ?post"
    using assms(2) unfolding sample_command_def Let_def by simp
  then have "\<exists>pre post. out = pre
     @ concat (map (\<lambda>h. '' -H '' @ quoted h) (header_lines ?ps @ [''Content-Type: application/json'']))
     @ post"
    by blast
  then show ?thesis unfolding header_lines_def by blast
qed

theorem headers_are_not_deduplicated_witness:
  "truthy (get_opt (get_opt (read_prop
      (JObj [(''parameters'', JArr [JObj [(''name'', JStr ''Content-Type''),
                (''in'', JStr ''header''), (''example'', JStr ''text/plain'')]]),
             (''requestBody'', JObj [(''content'', JObj [(''application/json'',
                JObj [(''schema'', JObj [(''type'', JStr ''boolean'')])])])])])
      ''requestBody'') ''content'') ''application/json'')
   \<and> assemble ''PUT'' ''/x''
      (JObj [(''parameters'', JArr [JObj [(''name'', JStr ''Content-Type''),
                (''in'', JStr ''header''), (''example'', JStr ''text/plain'')]]),
             (''requestBody'', JObj [(''content'', JObj [(''application/json'',
                JObj [(''schema'', JObj [(''type'', JStr ''boolean'')])])])])])
     = Inr (''curl -X PUT '' @ quoted ''https://api.mastercard.com/x''
            @ '' -H '' @ quoted ''Content-Type: text/plain''
            @ '' -H '' @ quoted ''Content-Type: application/json''
            @ '' -d '' @ quoted ''true'')
   \<and> (\<exists>pre post. ''curl -X PUT '' @ quoted ''https://api.mastercard.com/x''
            @ '' -H '' @ quoted ''Content-Type: text/plain''
            @ '' -H '' @ quoted ''Content-Type: application/json''
            @ '' -d '' @ quoted ''true''
        = pre @ concat (map (\<lambda>h. '' -H '' @ quoted h)
               (map (\<lambda>p. param_name p @ '': '' @ param_value p)
                  (filter (located ''header'') (elements (read_prop
      (JObj [(''parameters'', JArr [JObj [(''name'', JStr ''Content-Type''),
                (''in'', JStr ''header''), (''example'', JStr ''text/plain'')]]),
             (''requestBody'', JObj [(''content'', JObj [(''application/json'',
                JObj [(''schema'', JObj [(''type'', JStr ''boolean'')])])])])]) ''parameters'')))
                @ [''Content-Type: application/json'']))
           @ post)"
proof -
  let ?doc = "JObj [(''parameters'', JArr [JObj [(''name'', JStr ''Content-Type''),
                (''in'', JStr ''header''), (''example'', JStr ''text/plain'')]]),
             (''requestBody'', JObj [(''content'', JObj [(''application/json'',
                JObj [(''schema'', JObj [(''type'', JStr ''boolean'')])])])])]"
  have t: "truthy (get_opt (get_opt (read_prop ?doc ''requestBody'') ''content'')
             ''application/json'')"
    by code_simp
  have a: "assemble ''PUT'' ''/x'' ?doc
     = Inr (''curl -X PUT '' @ quoted ''https://api.mastercard.com/x''
            @ '' -H '' @ quoted ''Content-Type: text/plain''
            @ '' -H '' @ quoted ''Content-Type: application/json''
            @ '' -d '' @ quoted ''true'')"
    by code_simp
  show ?thesis using headers_are_not_deduplicated [OF a t] a t by blast
qed

section \<open>The operation search: claims\<close>

text \<open>
  Claim C9 (the search never throws, and a payload that is neither an object with an
  \<open>operations\<close> array nor an array gives an empty result). The payload \<open>null\<close> is valid
  JSON of that kind, and reading \<open>parsed.operations\<close> from it throws a \<open>TypeError\<close>,
  whatever the query and the tag (\<open>execute_searchApiOperations_parsed\<close>: the search
  hands every payload that parses to \<open>search_parsed\<close>).
\<close>

theorem search_parsed_null: "search_parsed query tag JNull = Inl TypeError"
  by (simp add: search_parsed_def)

text \<open>
  Claim C8 as stated (when a tag filter is given, the lower-cased tags contain the
  lower-cased filter tag exactly) fails for the empty filter tag: \<open>tag ? ... : true\<close>
  treats it as no filter. The operation below has the single tag \<open>x\<close>, which is not the
  empty text, and the search with the filter tag \<open>""\<close> returns it.
\<close>

theorem empty_tag_does_not_filter:
  "toLowerCase [] \<notin> set (map toLowerCase [''x''])
   \<and> search_parsed ''a'' (Some [])
        (JArr [JObj [(''summary'', JStr ''a''), (''tags'', JArr [JStr ''x''])]])
       = Inr (JSON_stringify_2
           (JArr [JObj [(''summary'', JStr ''a''), (''tags'', JArr [JStr ''x''])]]))"
  by code_simp

text \<open>
  Claim C8, amended: for a payload other than \<open>null\<close> whose operations all have the
  declared shape, the search returns, as JSON with an indentation of two spaces, exactly
  the operations (unchanged, in their original order) for which the lower-cased query
  occurs in the lower-cased summary, in the lower-cased description or in some
  lower-cased tag and, when a filter tag other than the empty text is given, the
  lower-cased tags contain the lower-cased filter tag.
\<close>

theorem search_returns_matching_operations:
  assumes "parsed \<noteq> JNull" and "list_all api_operation (operations_of parsed)"
  shows "search_parsed query tag parsed
    = Inr (JSON_stringify_2 (JArr
        (filter (matches_search (toLowerCase query) (map_option toLowerCase tag))
           (operations_of parsed))))"
proof -
  let ?f = "op_matches (toLowerCase query) (map_option toLowerCase tag)"
  have ops: "(if isArray (read_prop parsed ''operations'')
              then elements (read_prop parsed ''operations'')
              else if isArray (Some parsed) then elements (Some parsed) else [])
             = operations_of parsed"
    by (simp add: operations_of_def elements_not_array)
  have "list_all (\<lambda>x. ?f x
          = Inr (matches_search (toLowerCase query) (map_option toLowerCase tag) x))
          (operations_of parsed)"
    using assms(2) by (simp add: list_all_iff op_matches_typed)
  then have "filterE ?f (operations_of parsed)
     = Inr (filter (matches_search (toLowerCase query) (map_option toLowerCase tag))
          (operations_of parsed))"
    by (rule filterE_Inr)
  then show ?thesis
    unfolding search_parsed_def get_Some [OF assms(1)] bindE_Inr Let_def ops by simp
qed

theorem search_returns_matching_operations_witness:
  "JObj [(''operations'', JArr
     [JObj [(''summary'', JStr ''Get payment''), (''description'', JStr ''Retrieve payment''),
            (''tags'', JArr [JStr ''Payments''])],
      JObj [(''summary'', JStr ''List accounts''), (''description'', JStr ''Retrieve accounts''),
            (''tags'', JArr [JStr ''Accounts'', JStr ''Finance''])]])] \<noteq> JNull
   \<and> list_all api_operation (operations_of (JObj [(''operations'', JArr
     [JObj [(''summary'', JStr ''Get payment''), (''description'', JStr ''Retrieve payment''),
            (''tags'', JArr [JStr ''Payments''])],
      JObj [(''summary'', JStr ''List accounts''), (''description'', JStr ''Retrieve accounts''),
            (''tags'', JArr [JStr ''Accounts'', JStr ''Finance''])]])]))
   \<and> search_parsed ''account'' (Some ''Finance'') (JObj [(''operations'', JArr
     [JObj [(''summary'', JStr ''Get payment''), (''description'', JStr ''Retrieve payment''),
            (''tags'', JArr [JStr ''Payments''])],
      JObj [(''summary'', JStr ''List accounts''), (''description'', JStr ''Retrieve accounts''),
            (''tags'', JArr [JStr ''Accounts'', JStr ''Finance''])]])])
     = Inr (JSON_stringify_2 (JArr
         [JObj [(''summary'', JStr ''List accounts''), (''description'', JStr ''Retrieve accounts''),
            (''tags'', JArr [JStr ''Accounts'', JStr ''Finance''])]]))"
proof -
  let ?doc = "JObj [(''operations'', JArr
     [JObj [(''summary'', JStr ''Get payment''), (''description'', JStr ''Retrieve payment''),
            (''tags'', JArr [JStr ''Payments''])],
      JObj [(''summary'', JStr ''List accounts''), (''description'', JStr ''Retrieve accounts''),
            (''tags'', JArr [JStr ''Accounts'', JStr ''Finance''])]])]"
  have n: "?doc \<noteq> JNull" by simp
  have t: "list_all api_operation (operations_of ?doc)" by code_simp
  have f: "filter (matches_search (toLowerCase ''account'') (map_option toLowerCase (Some ''Finance'')))
             (operations_of ?doc)
           = [JObj [(''summary'', JStr ''List accounts''), (''description'', JStr ''Retrieve accounts''),
            (''tags'', JArr [JStr ''Accounts'', JStr ''Finance''])]]"
    by code_simp
  show ?thesis
    using search_returns_matching_operations [OF n t, of "''account''" "Some ''Finance''"] n t
    unfolding f by simp
qed

end
